theory Spec2Isabelle
  imports Complex_Main "HOL-Library.Word" "HOL-Library.List_Lexorder" "HOL-Library.AList"
    "HOL-Library.While_Combinator" "HOL-Library.Multiset"
begin

section \<open>Data model (types.ts)\<close>

text \<open>
  A JavaScript string is a sequence of 16-bit code units; \<open><\<close> on strings and the default
  \<open>Array.prototype.sort\<close> compare code units lexicographically, which is the order
  of \<open>List_Lexorder\<close> on \<open>16 word list\<close>. In the graph index, the centrality rankings
  and the k-means clusterer a JavaScript number is a real number and the arithmetic is
  exact; the hierarchical clusterer, where an overflow changes the control flow, has the
  doubles with their infinities and \<open>NaN\<close>. An object used as a record keyed by ids
  (\<open>Record<string, T>\<close>) is a map. On the key \<open>__proto__\<close> a plain object does not behave
  as a map: assigning a number to it does nothing, and reading it returns the prototype
  object. That key is treated at each record where it can occur.
\<close>

type_synonym jsstring = "16 word list"

text \<open>The code units of the string \<open>__proto__\<close>.\<close>

definition protoKey :: jsstring where
  "protoKey = [0x5F, 0x5F, 0x70, 0x72, 0x6F, 0x74, 0x6F, 0x5F, 0x5F]"

record Metrics =
  degree :: real
  betweenness :: real
  closeness :: real
  kCore :: real
  community :: nat
  clusteringCoeff :: real

record Clusters =
  kmeans :: "nat option"
  hierarchical :: "nat option"

record GraphNode =
  id' :: jsstring
  group :: jsstring
  metrics :: "Metrics option"
  clusters :: "Clusters option"

text \<open>
  A number that can be infinite or \<open>NaN\<close>: a finite double, which is a real number, or
  one of the three special values.
\<close>

datatype jsnum = NaN | PInf | NInf | Fin real

record Association =
  support :: jsnum
  confidence :: jsnum
  lift :: jsnum
  isRule :: "bool option"

text \<open>
  A link endpoint is an id or a resolved node object (\<open>typeof l.source === 'object'\<close>).
  The numeric index form of d3 is produced nowhere in the repository and is left out.
\<close>

datatype LinkEnd = EndId jsstring | EndNode GraphNode

record GraphLink =
  source :: LinkEnd
  target :: LinkEnd
  type :: jsstring
  weight :: "real option"
  association :: "Association option"

record RawEntity =
  type :: jsstring
  name :: jsstring

record RawRelation =
  source :: jsstring
  relation :: jsstring
  target :: jsstring

record GraphData =
  nodes :: "GraphNode list"
  links :: "GraphLink list"

section \<open>Graph index: getAdjacency\<close>

text \<open>
  The adjacency is a JavaScript \<open>Map\<close> from node id to an array of \<open>{id, weight}\<close>: an
  association list in insertion order. \<open>Map.set\<close> on a present key keeps its position,
  as \<open>AList.update\<close> does.
\<close>

record Neighbor =
  id' :: jsstring
  weight :: real

type_synonym adjacency = "(jsstring \<times> Neighbor list) list"

fun endId :: "LinkEnd \<Rightarrow> jsstring" where
  "endId (EndNode n) = GraphNode.id' n"
| "endId (EndId s) = s"

text \<open>\<open>weighted ? (l.weight || 1) : 1\<close>: an absent weight and the weight 0 are falsy.\<close>

definition linkWeight :: "bool \<Rightarrow> GraphLink \<Rightarrow> real" where
  "linkWeight weighted l =
     (if weighted
      then (case GraphLink.weight l of None \<Rightarrow> 1 | Some w \<Rightarrow> if w = 0 then 1 else w)
      else 1)"

text \<open>\<open>if (adj.has(k)) adj.get(k)?.push(e)\<close>\<close>

definition adjPush :: "jsstring \<Rightarrow> Neighbor \<Rightarrow> adjacency \<Rightarrow> adjacency" where
  "adjPush k e adj =
     (case map_of adj k of
        Some l \<Rightarrow> AList.update k (l @ [e]) adj
      | None \<Rightarrow> adj)"

definition addLink :: "bool \<Rightarrow> adjacency \<Rightarrow> GraphLink \<Rightarrow> adjacency" where
  "addLink weighted adj l =
     (let s = endId (GraphLink.source l);
          t = endId (GraphLink.target l);
          w = linkWeight weighted l
      in adjPush t \<lparr>Neighbor.id' = s, weight = w\<rparr>
           (adjPush s \<lparr>Neighbor.id' = t, weight = w\<rparr> adj))"

definition getAdjacency :: "GraphNode list \<Rightarrow> GraphLink list \<Rightarrow> bool \<Rightarrow> adjacency" where
  "getAdjacency ns ls weighted =
     foldl (addLink weighted) (foldl (\<lambda>adj n. AList.update (GraphNode.id' n) [] adj) [] ns) ls"

text \<open>The entries one link contributes to the neighbour list of \<open>v\<close>, in push order.\<close>

definition linkEntries :: "bool \<Rightarrow> jsstring \<Rightarrow> GraphLink \<Rightarrow> Neighbor list" where
  "linkEntries weighted v l =
     (if endId (GraphLink.source l) = v
      then [\<lparr>Neighbor.id' = endId (GraphLink.target l), weight = linkWeight weighted l\<rparr>] else [])
     @ (if endId (GraphLink.target l) = v
      then [\<lparr>Neighbor.id' = endId (GraphLink.source l), weight = linkWeight weighted l\<rparr>] else [])"

subsection \<open>Facts about the adjacency\<close>

lemma map_of_adjPush:
  "map_of (adjPush k e adj) v =
     (case map_of adj v of None \<Rightarrow> None | Some l \<Rightarrow> Some (if v = k then l @ [e] else l))"
  by (auto simp: adjPush_def update_conv' split: option.splits)

lemma map_of_addLink:
  "map_of (addLink weighted adj l) v =
     (case map_of adj v of None \<Rightarrow> None | Some es \<Rightarrow> Some (es @ linkEntries weighted v l))"
  by (auto simp: addLink_def Let_def map_of_adjPush linkEntries_def split: option.splits)

lemma map_of_foldl_addLink:
  "map_of (foldl (addLink weighted) adj ls) v =
     (case map_of adj v of None \<Rightarrow> None
      | Some es \<Rightarrow> Some (es @ concat (map (linkEntries weighted v) ls)))"
  by (induction ls arbitrary: adj) (auto simp: map_of_addLink split: option.splits)

lemma map_of_initAdj:
  "map_of (foldl (\<lambda>adj n. AList.update (GraphNode.id' n) [] adj) adj0 ns) v =
     (if v \<in> GraphNode.id' ` set ns then Some [] else map_of adj0 v)"
  by (induction ns arbitrary: adj0) (auto simp: update_conv')

lemma getAdjacency_lookup:
  "map_of (getAdjacency ns ls weighted) v =
     (if v \<in> GraphNode.id' ` set ns
      then Some (concat (map (linkEntries weighted v) ls)) else None)"
  by (simp add: getAdjacency_def map_of_foldl_addLink map_of_initAdj)

lemma adjPush_absent: "map_of adj k = None \<Longrightarrow> adjPush k e adj = adj"
  by (simp add: adjPush_def)

lemma addLink_absent:
  "map_of adj (endId (GraphLink.source l)) = None \<Longrightarrow>
   map_of adj (endId (GraphLink.target l)) = None \<Longrightarrow> addLink weighted adj l = adj"
  by (simp add: addLink_def Let_def adjPush_absent)

lemma dom_addLink: "map_of (addLink weighted adj l) v = None \<longleftrightarrow> map_of adj v = None"
  by (simp add: map_of_addLink split: option.splits)

lemma foldl_addLink_filter:
  "foldl (addLink weighted) adj ls =
   foldl (addLink weighted) adj
     (filter (\<lambda>l. map_of adj (endId (GraphLink.source l)) \<noteq> None
                \<or> map_of adj (endId (GraphLink.target l)) \<noteq> None) ls)"
proof (induction ls arbitrary: adj)
  case Nil
  show ?case by simp
next
  case (Cons l ls)
  have same: "(\<lambda>l'. map_of (addLink weighted adj l) (endId (GraphLink.source l')) \<noteq> None
                \<or> map_of (addLink weighted adj l) (endId (GraphLink.target l')) \<noteq> None)
            = (\<lambda>l'. map_of adj (endId (GraphLink.source l')) \<noteq> None
                \<or> map_of adj (endId (GraphLink.target l')) \<noteq> None)"
    by (simp add: dom_addLink)
  show ?case
  proof (cases "map_of adj (endId (GraphLink.source l)) = None
              \<and> map_of adj (endId (GraphLink.target l)) = None")
    case True
    then show ?thesis using Cons.IH [of adj] by (simp add: addLink_absent)
  next
    case False
    have "foldl (addLink weighted) (addLink weighted adj l) ls =
          foldl (addLink weighted) (addLink weighted adj l)
            (filter (\<lambda>l'. map_of adj (endId (GraphLink.source l')) \<noteq> None
                \<or> map_of adj (endId (GraphLink.target l')) \<noteq> None) ls)"
      using Cons.IH [of "addLink weighted adj l"] by (simp only: same)
    with False show ?thesis by auto
  qed
qed

section \<open>Centrality rankings: degree\<close>

record RankEntry =
  id' :: jsstring
  val :: real

text \<open>\<open>nodes.map(n => ({ id: n.id, val: adj.get(n.id)?.length || 0 }))\<close>\<close>

definition degreeEntries :: "GraphNode list \<Rightarrow> adjacency \<Rightarrow> RankEntry list" where
  "degreeEntries ns adj =
     map (\<lambda>n. \<lparr>RankEntry.id' = GraphNode.id' n,
               val = (case map_of adj (GraphNode.id' n) of
                        Some es \<Rightarrow> real (length es) | None \<Rightarrow> 0)\<rparr>) ns"

lemma length_concat_linkEntries:
  "length (concat (map (linkEntries weighted v) ls)) =
     length (filter (\<lambda>l. endId (GraphLink.source l) = v) ls)
   + length (filter (\<lambda>l. endId (GraphLink.target l) = v) ls)"
  by (induction ls) (auto simp: linkEntries_def)

section \<open>Claims about the graph index\<close>

text \<open>
  C2 (as stated, refuted). The claim says that a link whose source or target id is missing
  from the node set adds nothing to any neighbour list. With the single node \<open>a\<close> and the
  link \<open>a \<rightarrow> b\<close>, whose target \<open>b\<close> is not a node, the list of \<open>a\<close> receives
  the entry \<open>{id: b, weight: 1}\<close>: each endpoint is guarded on its own.
\<close>

theorem getAdjacency_dangling_counterexample:
  "endId (GraphLink.target \<lparr>GraphLink.source = EndId [0x61], target = EndId [0x62],
        type = [0x72], weight = None, association = None\<rparr>)
     \<notin> GraphNode.id' ` set [\<lparr>GraphNode.id' = [0x61], group = [0x67], metrics = None, clusters = None\<rparr>]
   \<and> map_of (getAdjacency
        [\<lparr>GraphNode.id' = [0x61], group = [0x67], metrics = None, clusters = None\<rparr>]
        [\<lparr>GraphLink.source = EndId [0x61], target = EndId [0x62],
          type = [0x72], weight = None, association = None\<rparr>] False) [0x61]
     = Some [\<lparr>Neighbor.id' = [0x62], weight = 1\<rparr>]
   \<and> map_of (getAdjacency
        [\<lparr>GraphNode.id' = [0x61], group = [0x67], metrics = None, clusters = None\<rparr>]
        [] False) [0x61]
     = Some []"
  by (simp add: getAdjacency_def addLink_def adjPush_def linkWeight_def)

text \<open>
  C2 (amended). Each endpoint of a link is guarded on its own. The neighbour list of a node
  \<open>v\<close> is the concatenation, in link order, of the entries \<open>linkEntries weighted v l\<close>:
  one entry naming the target for every link with source \<open>v\<close>, one naming the source for
  every link with target \<open>v\<close>, whether or not the named id is itself a node. Appending a
  link \<open>l\<close> appends exactly \<open>linkEntries weighted v l\<close> to the list of every node \<open>v\<close>;
  so a link with one endpoint in the node set still appends one entry, naming the other id.
  The adjacency is left as it was exactly when both the source and the target id are missing
  from the node set, and removing all such links leaves the adjacency unchanged. No error is
  raised in any case: the function is total.
\<close>

theorem getAdjacency_link_contribution:
  "map_of (getAdjacency ns ls weighted) v =
     (if v \<in> GraphNode.id' ` set ns
      then Some (concat (map (linkEntries weighted v) ls)) else None)
   \<and> map_of (getAdjacency ns (ls @ [l]) weighted) v =
     (case map_of (getAdjacency ns ls weighted) v of
        None \<Rightarrow> None
      | Some old \<Rightarrow> Some (old @ linkEntries weighted v l))
   \<and> (getAdjacency ns (ls @ [l]) weighted = getAdjacency ns ls weighted
        \<longleftrightarrow> endId (GraphLink.source l) \<notin> GraphNode.id' ` set ns
          \<and> endId (GraphLink.target l) \<notin> GraphNode.id' ` set ns)
   \<and> getAdjacency ns ls weighted =
     getAdjacency ns
       (filter (\<lambda>l. endId (GraphLink.source l) \<in> GraphNode.id' ` set ns
                  \<or> endId (GraphLink.target l) \<in> GraphNode.id' ` set ns) ls) weighted"
proof (intro conjI)
  show "map_of (getAdjacency ns ls weighted) v =
     (if v \<in> GraphNode.id' ` set ns
      then Some (concat (map (linkEntries weighted v) ls)) else None)"
    by (rule getAdjacency_lookup)
next
  show "map_of (getAdjacency ns (ls @ [l]) weighted) v =
     (case map_of (getAdjacency ns ls weighted) v of
        None \<Rightarrow> None
      | Some old \<Rightarrow> Some (old @ linkEntries weighted v l))"
    by (simp add: getAdjacency_lookup)
next
  let ?s = "endId (GraphLink.source l)" and ?t = "endId (GraphLink.target l)"
  let ?ids = "GraphNode.id' ` set ns"
  have step: "getAdjacency ns (ls @ [l]) weighted = addLink weighted (getAdjacency ns ls weighted) l"
    by (simp add: getAdjacency_def)
  show "getAdjacency ns (ls @ [l]) weighted = getAdjacency ns ls weighted
        \<longleftrightarrow> ?s \<notin> ?ids \<and> ?t \<notin> ?ids"
  proof
    assume same: "getAdjacency ns (ls @ [l]) weighted = getAdjacency ns ls weighted"
    have "?s \<notin> ?ids"
    proof
      assume "?s \<in> ?ids"
      then have "map_of (getAdjacency ns (ls @ [l]) weighted) ?s
                 \<noteq> map_of (getAdjacency ns ls weighted) ?s"
        by (simp add: getAdjacency_lookup linkEntries_def)
      with same show False by simp
    qed
    moreover have "?t \<notin> ?ids"
    proof
      assume "?t \<in> ?ids"
      then have "map_of (getAdjacency ns (ls @ [l]) weighted) ?t
                 \<noteq> map_of (getAdjacency ns ls weighted) ?t"
        by (simp add: getAdjacency_lookup linkEntries_def)
      with same show False by simp
    qed
    ultimately show "?s \<notin> ?ids \<and> ?t \<notin> ?ids" by simp
  next
    assume "?s \<notin> ?ids \<and> ?t \<notin> ?ids"
    then have "map_of (getAdjacency ns ls weighted) ?s = None"
      and "map_of (getAdjacency ns ls weighted) ?t = None"
      by (simp_all add: getAdjacency_lookup)
    then show "getAdjacency ns (ls @ [l]) weighted = getAdjacency ns ls weighted"
      unfolding step by (rule addLink_absent)
  qed
next
  let ?adj0 = "foldl (\<lambda>adj n. AList.update (GraphNode.id' n) [] adj) [] ns"
  have eq: "(\<lambda>l. map_of ?adj0 (endId (GraphLink.source l)) \<noteq> None
            \<or> map_of ?adj0 (endId (GraphLink.target l)) \<noteq> None)
      = (\<lambda>l. endId (GraphLink.source l) \<in> GraphNode.id' ` set ns
            \<or> endId (GraphLink.target l) \<in> GraphNode.id' ` set ns)"
    by (rule ext) (simp add: map_of_initAdj)
  show "getAdjacency ns ls weighted =
     getAdjacency ns
       (filter (\<lambda>l. endId (GraphLink.source l) \<in> GraphNode.id' ` set ns
                  \<or> endId (GraphLink.target l) \<in> GraphNode.id' ` set ns) ls) weighted"
    unfolding getAdjacency_def
    by (subst foldl_addLink_filter) (simp only: eq)
qed

theorem getAdjacency_link_contribution_witness:
  "map_of (getAdjacency
        [\<lparr>GraphNode.id' = [0x61], group = [0x67], metrics = None, clusters = None\<rparr>]
        ([] @ [\<lparr>GraphLink.source = EndId [0x61], target = EndId [0x62],
          type = [0x72], weight = None, association = None\<rparr>]) False) [0x61]
     = Some [\<lparr>Neighbor.id' = [0x62], weight = 1\<rparr>]
   \<and> getAdjacency
        [\<lparr>GraphNode.id' = [0x61], group = [0x67], metrics = None, clusters = None\<rparr>]
        ([] @ [\<lparr>GraphLink.source = EndId [0x63], target = EndId [0x62],
          type = [0x72], weight = None, association = None\<rparr>]) False
     = getAdjacency
        [\<lparr>GraphNode.id' = [0x61], group = [0x67], metrics = None, clusters = None\<rparr>] [] False"
proof
  let ?A = "[\<lparr>GraphNode.id' = [0x61], group = [0x67], metrics = None, clusters = None\<rparr>]"
  let ?l1 = "\<lparr>GraphLink.source = EndId [0x61], target = EndId [0x62],
          type = [0x72], weight = None, association = None\<rparr>"
  let ?l2 = "\<lparr>GraphLink.source = EndId [0x63], target = EndId [0x62],
          type = [0x72], weight = None, association = None\<rparr>"
  have a: "map_of (getAdjacency ?A ([] @ [?l1]) False) [0x61] =
     (case map_of (getAdjacency ?A [] False) [0x61] of
        None \<Rightarrow> None
      | Some old \<Rightarrow> Some (old @ linkEntries False [0x61] ?l1))"
    by (rule getAdjacency_link_contribution
          [of ?A "[]" False "[0x61]" ?l1, THEN conjunct2, THEN conjunct1])
  have e: "map_of (getAdjacency ?A [] False) [0x61] = Some []"
    by (simp add: getAdjacency_def)
  show "map_of (getAdjacency ?A ([] @ [?l1]) False) [0x61]
     = Some [\<lparr>Neighbor.id' = [0x62], weight = 1\<rparr>]"
    unfolding a e by (simp add: linkEntries_def linkWeight_def)
  have b: "getAdjacency ?A ([] @ [?l2]) False = getAdjacency ?A [] False
        \<longleftrightarrow> endId (GraphLink.source ?l2) \<notin> GraphNode.id' ` set ?A
          \<and> endId (GraphLink.target ?l2) \<notin> GraphNode.id' ` set ?A"
    by (rule getAdjacency_link_contribution
          [of ?A "[]" False "[0x61]" ?l2, THEN conjunct2, THEN conjunct2, THEN conjunct1])
  have c: "endId (GraphLink.source ?l2) \<notin> GraphNode.id' ` set ?A
          \<and> endId (GraphLink.target ?l2) \<notin> GraphNode.id' ` set ?A"
    by simp
  show "getAdjacency ?A ([] @ [?l2]) False = getAdjacency ?A [] False"
    using b c by (rule iffD2)
qed

text \<open>
  C10. For a node \<open>n\<close> of the node set, a self-loop at \<open>n\<close> appended to the links appends
  two entries to the neighbour list of \<open>n\<close>; and the degree value of \<open>n\<close> is the number of
  links with source \<open>n\<close> plus the number of links with target \<open>n\<close>, so that a self-loop
  counts twice and every repeated link counts again.
\<close>

theorem degree_counts_link_ends:
  assumes "n \<in> set ns"
    and "endId (GraphLink.source l) = GraphNode.id' n"
    and "endId (GraphLink.target l) = GraphNode.id' n"
  shows "(\<exists>old. map_of (getAdjacency ns ls weighted) (GraphNode.id' n) = Some old
            \<and> map_of (getAdjacency ns (ls @ [l]) weighted) (GraphNode.id' n)
                = Some (old @ [\<lparr>Neighbor.id' = GraphNode.id' n, weight = linkWeight weighted l\<rparr>,
                               \<lparr>Neighbor.id' = GraphNode.id' n, weight = linkWeight weighted l\<rparr>]))
       \<and> degreeEntries ns (getAdjacency ns ks False)
           = map (\<lambda>m. \<lparr>RankEntry.id' = GraphNode.id' m,
                       val = real (length (filter (\<lambda>k. endId (GraphLink.source k) = GraphNode.id' m) ks)
                                 + length (filter (\<lambda>k. endId (GraphLink.target k) = GraphNode.id' m) ks))\<rparr>) ns"
proof
  have "GraphNode.id' n \<in> GraphNode.id' ` set ns"
    using assms(1) by simp
  then show "\<exists>old. map_of (getAdjacency ns ls weighted) (GraphNode.id' n) = Some old
            \<and> map_of (getAdjacency ns (ls @ [l]) weighted) (GraphNode.id' n)
                = Some (old @ [\<lparr>Neighbor.id' = GraphNode.id' n, weight = linkWeight weighted l\<rparr>,
                               \<lparr>Neighbor.id' = GraphNode.id' n, weight = linkWeight weighted l\<rparr>])"
    using assms(2,3) by (simp add: getAdjacency_lookup linkEntries_def)
next
  show "degreeEntries ns (getAdjacency ns ks False)
           = map (\<lambda>m. \<lparr>RankEntry.id' = GraphNode.id' m,
                       val = real (length (filter (\<lambda>k. endId (GraphLink.source k) = GraphNode.id' m) ks)
                                 + length (filter (\<lambda>k. endId (GraphLink.target k) = GraphNode.id' m) ks))\<rparr>) ns"
    unfolding degreeEntries_def
    by (rule map_cong) (simp_all add: getAdjacency_lookup length_concat_linkEntries)
qed

theorem degree_counts_link_ends_witness:
  "map_of (getAdjacency
        [\<lparr>GraphNode.id' = [0x61], group = [0x67], metrics = None, clusters = None\<rparr>]
        ([] @ [\<lparr>GraphLink.source = EndId [0x61], target = EndId [0x61],
          type = [0x72], weight = None, association = None\<rparr>]) True) [0x61]
     = Some [\<lparr>Neighbor.id' = [0x61], weight = 1\<rparr>, \<lparr>Neighbor.id' = [0x61], weight = 1\<rparr>]
   \<and> degreeEntries
        [\<lparr>GraphNode.id' = [0x61], group = [0x67], metrics = None, clusters = None\<rparr>]
        (getAdjacency
          [\<lparr>GraphNode.id' = [0x61], group = [0x67], metrics = None, clusters = None\<rparr>]
          [\<lparr>GraphLink.source = EndId [0x61], target = EndId [0x61],
            type = [0x72], weight = None, association = None\<rparr>] False)
     = [\<lparr>RankEntry.id' = [0x61], val = 2\<rparr>]"
  using degree_counts_link_ends
    [of "\<lparr>GraphNode.id' = [0x61], group = [0x67], metrics = None, clusters = None\<rparr>"
        "[\<lparr>GraphNode.id' = [0x61], group = [0x67], metrics = None, clusters = None\<rparr>]"
        "\<lparr>GraphLink.source = EndId [0x61], target = EndId [0x61],
          type = [0x72], weight = None, association = None\<rparr>"
        "[]" True
        "[\<lparr>GraphLink.source = EndId [0x61], target = EndId [0x61],
            type = [0x72], weight = None, association = None\<rparr>]"]
  by (simp add: getAdjacency_def linkWeight_def)

section \<open>Centrality rankings: betweenness and closeness\<close>















text \<open>
  \<open>sort((a, b) => b.val - a.val)\<close> is a stable sort, descending by \<open>val\<close>;
  \<open>slice(0, 5)\<close> keeps the first five entries.
\<close>

record Rankings =
  degree :: "RankEntry list"
  betweenness :: "RankEntry list"
  closeness :: "RankEntry list"




subsection \<open>The breadth-first loops terminate\<close>






















section \<open>Claims about the centrality rankings\<close>











section \<open>Co-occurrence builder: generateCooccurrenceGraph\<close>

text \<open>
  A \<open>Set<string>\<close> is a duplicate-free list in insertion order, a \<open>Map\<close> an association
  list in insertion order.
\<close>

definition setAdd :: "jsstring \<Rightarrow> jsstring list \<Rightarrow> jsstring list" where
  "setAdd x xs = (if x \<in> set xs then xs else xs @ [x])"

text \<open>\<open>entities.find(e => e.name === n && e.type === t)\<close>, used as a truth value.\<close>

definition hasEntity :: "RawEntity list \<Rightarrow> jsstring \<Rightarrow> jsstring \<Rightarrow> bool" where
  "hasEntity es n t = (List.find (\<lambda>e. RawEntity.name e = n \<and> RawEntity.type e = t) es \<noteq> None)"

text \<open>
  \<open>if (!m.has(c)) m.set(c, new Set()); m.get(c)?.add(i); allItems.add(i)\<close>
\<close>

definition registerItem :: "jsstring \<Rightarrow> jsstring
    \<Rightarrow> (jsstring \<times> jsstring list) list \<times> jsstring list
    \<Rightarrow> (jsstring \<times> jsstring list) list \<times> jsstring list" where
  "registerItem c i st =
     (let m = fst st;
          m1 = (if map_of m c = None then AList.update c [] m else m)
      in (AList.update c (setAdd i (case map_of m1 c of Some s \<Rightarrow> s | None \<Rightarrow> [])) m1,
          setAdd i (snd st)))"

definition scanRelation :: "RawEntity list \<Rightarrow> jsstring \<Rightarrow> jsstring
    \<Rightarrow> (jsstring \<times> jsstring list) list \<times> jsstring list \<Rightarrow> RawRelation
    \<Rightarrow> (jsstring \<times> jsstring list) list \<times> jsstring list" where
  "scanRelation es containerType itemType st r =
     (let st1 = (if hasEntity es (RawRelation.source r) containerType
                    \<and> hasEntity es (RawRelation.target r) itemType
                 then registerItem (RawRelation.source r) (RawRelation.target r) st else st)
      in if hasEntity es (RawRelation.target r) containerType
            \<and> hasEntity es (RawRelation.source r) itemType
         then registerItem (RawRelation.target r) (RawRelation.source r) st1 else st1)"

text \<open>The index pairs \<open>i < j\<close> of the two nested \<open>for\<close> loops, in loop order.\<close>

fun pairsOf :: "'a list \<Rightarrow> ('a \<times> 'a) list" where
  "pairsOf [] = []"
| "pairsOf (x # xs) = map (Pair x) xs @ pairsOf xs"

definition bar :: "16 word" where
  "bar = 0x7C"

definition edgeKey :: "jsstring \<times> jsstring \<Rightarrow> jsstring" where
  "edgeKey p = (if fst p < snd p then fst p @ [bar] @ snd p else snd p @ [bar] @ fst p)"

text \<open>\<open>edgesMap.set(k, (edgesMap.get(k) || 0) + 1)\<close>\<close>

definition bumpKey :: "(jsstring \<times> nat) list \<Rightarrow> jsstring \<Rightarrow> (jsstring \<times> nat) list" where
  "bumpKey m k = AList.update k ((case map_of m k of Some c \<Rightarrow> c | None \<Rightarrow> 0) + 1) m"

text \<open>\<open>k.split('|')\<close>: the segments between the separators.\<close>

definition splitBar :: "jsstring \<Rightarrow> jsstring list" where
  "splitBar s = foldr (\<lambda>c acc. if c = bar then [] # acc else (c # hd acc) # tl acc) s [[]]"

definition keyLink :: "jsstring \<times> nat \<Rightarrow> GraphLink" where
  "keyLink kw =
     \<lparr>GraphLink.source = EndId (splitBar (fst kw) ! 0),
      target = EndId (splitBar (fst kw) ! 1),
      type = [0x63, 0x6F, 0x2D, 0x6F, 0x63, 0x63, 0x75, 0x72],
      weight = Some (real (snd kw)), association = None\<rparr>"

definition generateCooccurrenceGraph ::
    "RawEntity list \<Rightarrow> RawRelation list \<Rightarrow> jsstring \<Rightarrow> jsstring \<Rightarrow> GraphData" where
  "generateCooccurrenceGraph es rs containerType itemType =
     (let st = foldl (scanRelation es containerType itemType) ([], []) rs;
          containerToItems = fst st;
          allItems = snd st;
          ns = map (\<lambda>i. \<lparr>GraphNode.id' = i, group = itemType, metrics = None, clusters = None\<rparr>) allItems;
          edgesMap = foldl (\<lambda>em items. foldl bumpKey em (map edgeKey (pairsOf items)))
                       [] (map snd containerToItems)
      in \<lparr>nodes = ns, links = map keyLink edgesMap\<rparr>)"

definition ent :: "jsstring \<Rightarrow> jsstring \<Rightarrow> RawEntity" where
  "ent t n = \<lparr>RawEntity.type = t, name = n\<rparr>"
definition rel :: "jsstring \<Rightarrow> jsstring \<Rightarrow> jsstring \<Rightarrow> RawRelation" where
  "rel s r t = \<lparr>RawRelation.source = s, relation = r, target = t\<rparr>"

section \<open>Hierarchical clusterer: calculateHierarchicalTree\<close>

text \<open>
  A distance overflows to \<open>Infinity\<close> on finite weights, and \<open>Infinity\<close> and \<open>NaN\<close>
  decide which way the merge loop goes: the numbers of this component are the doubles with
  their three special values. A finite double is a real number, and an operation on finite
  operands returns the exact result when its absolute value is below \<open>2\<^sup>1\<^sup>0\<^sup>2\<^sup>4 - 2\<^sup>9\<^sup>7\<^sup>0\<close>,
  the point from which rounding to nearest gives an infinity, and the infinity of its sign
  from there on. Rounding below that point and the sign of zero are not modelled; neither
  changes which of the values are finite. An index outside an array reads \<open>undefined\<close>,
  which is \<open>NaN\<close> in arithmetic.
\<close>

definition dblLimit :: real where
  "dblLimit = 2 ^ 1024 - 2 ^ 970"

definition toJs :: "real \<Rightarrow> jsnum" where
  "toJs x = (if dblLimit \<le> x then PInf else if x \<le> - dblLimit then NInf else Fin x)"

fun jsneg :: "jsnum \<Rightarrow> jsnum" where
  "jsneg NaN = NaN"
| "jsneg PInf = NInf"
| "jsneg NInf = PInf"
| "jsneg (Fin a) = Fin (- a)"

fun jsadd :: "jsnum \<Rightarrow> jsnum \<Rightarrow> jsnum" where
  "jsadd (Fin a) (Fin b) = toJs (a + b)"
| "jsadd NaN y = NaN"
| "jsadd x NaN = NaN"
| "jsadd PInf NInf = NaN"
| "jsadd NInf PInf = NaN"
| "jsadd PInf y = PInf"
| "jsadd x PInf = PInf"
| "jsadd NInf y = NInf"
| "jsadd x NInf = NInf"

definition jssub :: "jsnum \<Rightarrow> jsnum \<Rightarrow> jsnum" where
  "jssub x y = jsadd x (jsneg y)"

fun jsabs :: "jsnum \<Rightarrow> jsnum" where
  "jsabs NaN = NaN"
| "jsabs PInf = PInf"
| "jsabs NInf = PInf"
| "jsabs (Fin a) = Fin \<bar>a\<bar>"

fun jssq :: "jsnum \<Rightarrow> jsnum" where
  "jssq NaN = NaN"
| "jssq PInf = PInf"
| "jssq NInf = PInf"
| "jssq (Fin a) = toJs (a ^ 2)"

fun jssqrt :: "jsnum \<Rightarrow> jsnum" where
  "jssqrt NaN = NaN"
| "jssqrt PInf = PInf"
| "jssqrt NInf = NaN"
| "jssqrt (Fin a) = (if a < 0 then NaN else Fin (sqrt a))"

fun jsmax :: "jsnum \<Rightarrow> jsnum \<Rightarrow> jsnum" where
  "jsmax (Fin a) (Fin b) = Fin (max a b)"
| "jsmax NaN y = NaN"
| "jsmax x NaN = NaN"
| "jsmax PInf y = PInf"
| "jsmax x PInf = PInf"
| "jsmax NInf y = y"
| "jsmax x NInf = x"

fun jsdiv :: "jsnum \<Rightarrow> jsnum \<Rightarrow> jsnum" where
  "jsdiv (Fin a) (Fin b) =
     (if b = 0 then (if a = 0 then NaN else if 0 < a then PInf else NInf) else toJs (a / b))"
| "jsdiv NaN y = NaN"
| "jsdiv x NaN = NaN"
| "jsdiv (Fin a) y = Fin 0"
| "jsdiv PInf (Fin b) = (if 0 \<le> b then PInf else NInf)"
| "jsdiv NInf (Fin b) = (if 0 \<le> b then NInf else PInf)"
| "jsdiv x y = NaN"

fun jslt :: "jsnum \<Rightarrow> jsnum \<Rightarrow> bool" where
  "jslt (Fin a) (Fin b) = (a < b)"
| "jslt NaN y = False"
| "jslt x NaN = False"
| "jslt x NInf = False"
| "jslt PInf y = False"
| "jslt NInf y = True"
| "jslt x PInf = True"

definition nthJ :: "jsnum list \<Rightarrow> nat \<Rightarrow> jsnum" where
  "nthJ xs i = (if i < length xs then xs ! i else NaN)"


datatype DistanceType = euclidean | chebyshev | manhattan | lance
datatype ClusterMethod = complete | average | centroid

record HierConfig =
  distanceType :: DistanceType
  method_hc :: ClusterMethod

datatype DendrogramNode =
  DendrogramNode (name: jsstring) (children: "DendrogramNode list option")
    (distance: "jsnum option") (isLeaf: "bool option")

fun leafNames :: "DendrogramNode \<Rightarrow> jsstring list" where
  "leafNames (DendrogramNode n cs d l) =
     (if l = Some True then [n] else [])
     @ (case cs of None \<Rightarrow> [] | Some ts \<Rightarrow> concat (map leafNames ts))"

fun internalCount :: "DendrogramNode \<Rightarrow> nat" where
  "internalCount (DendrogramNode n cs d l) =
     (if l = Some True then 0 else 1)
     + (case cs of None \<Rightarrow> 0 | Some ts \<Rightarrow> sum_list (map internalCount ts))"

fun binaryTree :: "DendrogramNode \<Rightarrow> bool" where
  "binaryTree (DendrogramNode n cs d l) =
     (if l = Some True then cs = None
      else (case cs of None \<Rightarrow> False | Some ts \<Rightarrow> length ts = 2 \<and> list_all binaryTree ts))"

text \<open>
  The field \<open>id\<close> of a cluster is written and never read, and is left out.
  \<open>vectors[m]\<close> is only read at node ids, where it is the row \<open>vectorOf adj ids m\<close>;
  this holds for the id \<open>__proto__\<close> as well, whose assignment makes the row the
  prototype of \<open>vectors\<close> and whose lookup returns that prototype. A link weight is a
  finite double.
\<close>

record Cluster =
  members :: "jsstring list"
  vec :: "jsnum list"
  tree :: DendrogramNode

definition vectorOf :: "adjacency \<Rightarrow> jsstring list \<Rightarrow> jsstring \<Rightarrow> jsnum list" where
  "vectorOf adj allNodeIds nid =
     map (\<lambda>i. if i = nid then Fin 0
              else (case map_of adj nid of
                      None \<Rightarrow> Fin 0
                    | Some es \<Rightarrow> (case List.find (\<lambda>x. Neighbor.id' x = i) es of
                                   None \<Rightarrow> Fin 0
                                 | Some neighbor \<Rightarrow> Fin (Neighbor.weight neighbor)))) allNodeIds"

text \<open>
  \<open>vecA.reduce((acc, v, i) => ..., 0)\<close> runs over the indices of \<open>vecA\<close>; \<open>vecB[i]\<close>
  is \<open>undefined\<close> where \<open>vecB\<close> is shorter.
\<close>

definition calculateDistance :: "jsnum list \<Rightarrow> jsnum list \<Rightarrow> DistanceType \<Rightarrow> jsnum" where
  "calculateDistance vecA vecB t =
     (case t of
        manhattan \<Rightarrow>
          foldl (\<lambda>sum i. jsadd sum (jsabs (jssub (vecA ! i) (nthJ vecB i)))) (Fin 0) [0..<length vecA]
      | chebyshev \<Rightarrow>
          foldl (\<lambda>mx i. jsmax mx (jsabs (jssub (vecA ! i) (nthJ vecB i)))) (Fin 0) [0..<length vecA]
      | lance \<Rightarrow>
          foldl (\<lambda>sum i. jsadd sum
                   (if jsadd (jsabs (vecA ! i)) (jsabs (nthJ vecB i)) = Fin 0 then Fin 0
                    else jsdiv (jsabs (jssub (vecA ! i) (nthJ vecB i)))
                               (jsadd (jsabs (vecA ! i)) (jsabs (nthJ vecB i)))))
            (Fin 0) [0..<length vecA]
      | euclidean \<Rightarrow>
          jssqrt (foldl (\<lambda>sum i. jsadd sum (jssq (jssub (vecA ! i) (nthJ vecB i))))
                    (Fin 0) [0..<length vecA]))"

text \<open>
  \<open>Math.max(...dists)\<close> starts from \<open>-Infinity\<close>; the average is
  \<open>dists.reduce((a, b) => a + b, 0) / dists.length\<close>. The limit of an engine on the number
  of arguments of a call is not modelled.
\<close>

definition getClusterDist :: "(jsstring \<Rightarrow> jsnum list) \<Rightarrow> HierConfig \<Rightarrow> Cluster \<Rightarrow> Cluster \<Rightarrow> jsnum" where
  "getClusterDist vectors config c1 c2 =
     (if method_hc config = centroid
      then calculateDistance (vec c1) (vec c2) (distanceType config)
      else (let dists = concat (map (\<lambda>m1. map (\<lambda>m2.
                            calculateDistance (vectors m1) (vectors m2) (distanceType config))
                          (members c2)) (members c1))
            in if method_hc config = complete then foldl jsmax NInf dists
               else jsdiv (foldl jsadd (Fin 0) dists) (Fin (real (length dists)))))"

definition indexPairs :: "nat \<Rightarrow> (nat \<times> nat) list" where
  "indexPairs n = concat (map (\<lambda>i. map (Pair i) [i + 1..<n]) [0..<n])"

text \<open>
  The body of the two nested loops: \<open>minD = Infinity, mergeIdx1 = -1, mergeIdx2 = -1\<close> is
  the value \<open>None\<close> of the triple, and \<open>if (d < minD)\<close> selects the pair.
\<close>

definition closer :: "(jsstring \<Rightarrow> jsnum list) \<Rightarrow> HierConfig \<Rightarrow> Cluster list
    \<Rightarrow> (jsnum \<times> nat \<times> nat) option \<Rightarrow> nat \<times> nat \<Rightarrow> (jsnum \<times> nat \<times> nat) option" where
  "closer vectors config cs best ij =
     (let d = getClusterDist vectors config (cs ! fst ij) (cs ! snd ij);
          minD = (case best of None \<Rightarrow> PInf | Some (m, _, _) \<Rightarrow> m)
      in if jslt d minD then Some (d, fst ij, snd ij) else best)"

definition findClosest :: "(jsstring \<Rightarrow> jsnum list) \<Rightarrow> HierConfig \<Rightarrow> Cluster list
    \<Rightarrow> (jsnum \<times> nat \<times> nat) option" where
  "findClosest vectors config cs =
     foldl (closer vectors config cs) None (indexPairs (length cs))"

definition mergeClusters :: "(jsstring \<Rightarrow> jsnum list) \<Rightarrow> Cluster list \<Rightarrow> jsnum \<Rightarrow> nat \<Rightarrow> nat
    \<Rightarrow> Cluster list" where
  "mergeClusters vectors cs minD mergeIdx1 mergeIdx2 =
     (let c1 = cs ! mergeIdx1;
          c2 = cs ! mergeIdx2;
          newMembers = members c1 @ members c2;
          newVec = (if newMembers \<noteq> [] \<and> hd newMembers \<noteq> []
                    then map (\<lambda>i. jsdiv (foldl (\<lambda>sum m. jsadd sum (nthJ (vectors m) i)) (Fin 0) newMembers)
                                       (Fin (real (length newMembers))))
                           [0..<length (vectors (hd newMembers))]
                    else []);
          newCluster = \<lparr>members = newMembers, vec = newVec,
                        tree = DendrogramNode [] (Some [tree c1, tree c2]) (Some minD) None\<rparr>
      in map snd (filter (\<lambda>(idx, c). idx \<noteq> mergeIdx1 \<and> idx \<noteq> mergeIdx2)
                    (zip [0..<length cs] cs))
         @ [newCluster])"

lemma closer_bounds:
  assumes "fst ij < snd ij" "snd ij < n"
    and "\<And>d i j. best = Some (d, i, j) \<Longrightarrow> i < j \<and> j < n"
    and "closer vectors config cs best ij = Some (d, i, j)"
  shows "i < j \<and> j < n"
  using assms by (auto simp: closer_def Let_def split: option.splits if_splits prod.splits)

lemma foldl_closer_bounds:
  "(\<And>p. p \<in> set ps \<Longrightarrow> fst p < snd p \<and> snd p < n) \<Longrightarrow>
   (\<And>d i j. best = Some (d, i, j) \<Longrightarrow> i < j \<and> j < n) \<Longrightarrow>
   foldl (closer vectors config cs) best ps = Some (d, i, j) \<Longrightarrow> i < j \<and> j < n"
proof (induction ps arbitrary: best)
  case Nil
  then show ?case by simp
next
  case (Cons p ps)
  show ?case
  proof (rule Cons.IH [of "closer vectors config cs best p"])
    show "\<And>q. q \<in> set ps \<Longrightarrow> fst q < snd q \<and> snd q < n" using Cons.prems(1) by simp
    show "\<And>d i j. closer vectors config cs best p = Some (d, i, j) \<Longrightarrow> i < j \<and> j < n"
      using closer_bounds [of p n best vectors config cs] Cons.prems(1,2) by simp
    show "foldl (closer vectors config cs) (closer vectors config cs best p) ps = Some (d, i, j)"
      using Cons.prems(3) by simp
  qed
qed

lemma findClosest_bounds:
  "findClosest vectors config cs = Some (d, i, j) \<Longrightarrow> i < j \<and> j < length cs"
  unfolding findClosest_def
  by (rule foldl_closer_bounds [where ps = "indexPairs (length cs)" and best = None])
     (auto simp: indexPairs_def)

lemma length_filter_two:
  assumes "i < j" "j < length xs"
  shows "length (filter (\<lambda>(idx, c). idx \<noteq> i \<and> idx \<noteq> j) (zip [0..<length xs] xs)) + 2 = length xs"
proof -
  let ?zs = "zip [0..<length xs] xs"
  have d: "distinct (map fst ?zs)" by simp
  have "length (filter (\<lambda>(idx, c). idx \<noteq> i \<and> idx \<noteq> j) ?zs)
      = length (filter (\<lambda>idx. idx \<noteq> i \<and> idx \<noteq> j) (map fst ?zs))"
    by (simp only: filter_map length_map comp_def case_prod_unfold)
  also have "map fst ?zs = [0..<length xs]" by simp
  also have "length (filter (\<lambda>idx. idx \<noteq> i \<and> idx \<noteq> j) [0..<length xs])
           = card ({0..<length xs} - {i, j})"
    by (subst distinct_card [symmetric]) (auto intro!: arg_cong [where f = card])
  also have "\<dots> + 2 = length xs"
    using assms by (simp add: card_Diff_subset)
  finally show ?thesis .
qed

lemma length_mergeClusters:
  "i < j \<Longrightarrow> j < length cs \<Longrightarrow> length (mergeClusters vectors cs d i j) + 1 = length cs"
  using length_filter_two [of i j cs] by (simp add: mergeClusters_def Let_def)

function hcLoop :: "(jsstring \<Rightarrow> jsnum list) \<Rightarrow> HierConfig \<Rightarrow> Cluster list \<Rightarrow> Cluster list" where
  "hcLoop vectors config cs =
     (if length cs > 1
      then (case findClosest vectors config cs of
              None \<Rightarrow> cs
            | Some (minD, mergeIdx1, mergeIdx2) \<Rightarrow>
                hcLoop vectors config (mergeClusters vectors cs minD mergeIdx1 mergeIdx2))
      else cs)"
  by pat_completeness auto
termination
  apply (relation "measure (\<lambda>(vectors, config, cs). length cs)")
   apply simp
  subgoal for vectors config cs x2 minD y mergeIdx1 mergeIdx2
    using findClosest_bounds [of vectors config cs minD mergeIdx1 mergeIdx2]
      length_mergeClusters [of mergeIdx1 mergeIdx2 cs vectors minD]
    by simp
  done

declare hcLoop.simps [simp del]

lemma hcLoop_last_merge:
  assumes "findClosest vectors config cs = Some (d, i, j)"
    and "length cs > 1" and "length (mergeClusters vectors cs d i j) \<le> 1"
  shows "hcLoop vectors config cs = mergeClusters vectors cs d i j"
proof -
  have "hcLoop vectors config cs = hcLoop vectors config (mergeClusters vectors cs d i j)"
    using assms(1,2) by (subst hcLoop.simps) simp
  also have "\<dots> = mergeClusters vectors cs d i j"
    using assms(3) by (subst hcLoop.simps) simp
  finally show ?thesis .
qed

definition calculateHierarchicalTree :: "GraphNode list \<Rightarrow> GraphLink list \<Rightarrow> HierConfig \<Rightarrow> DendrogramNode" where
  "calculateHierarchicalTree ns ls config =
     (let adj = getAdjacency ns ls True;
          allNodeIds = map GraphNode.id' ns;
          vectors = vectorOf adj allNodeIds;
          cs = map (\<lambda>n. \<lparr>members = [GraphNode.id' n], vec = vectors (GraphNode.id' n),
                               tree = DendrogramNode (GraphNode.id' n) None (Some (Fin 0)) (Some True)\<rparr>) ns
      in case hcLoop vectors config cs of
           [] \<Rightarrow> DendrogramNode [0x52, 0x6F, 0x6F, 0x74] (Some []) None None
         | c # _ \<Rightarrow> tree c)"

subsection \<open>Numbers within the range of the doubles\<close>

lemma dblLimit_big: "2 ^ 1000 < dblLimit"
  by (simp add: dblLimit_def)

lemma toJs_Fin: "\<bar>x\<bar> < dblLimit \<Longrightarrow> toJs x = Fin x"
  by (auto simp: toJs_def)

lemma toJs_small [simp]: "toJs 0 = Fin 0" "toJs 1 = Fin 1" "toJs (-1) = Fin (-1)"  "toJs 2 = Fin 2"
  "toJs (1 / 2) = Fin (1 / 2)"
  using dblLimit_big by (simp_all add: toJs_Fin)

subsection \<open>The syndrome and symptom scenario\<close>

definition xiongmen :: jsstring where "xiongmen = [0x80F8, 0x95F7]"
definition xiongtong :: jsstring where "xiongtong = [0x80F8, 0x75DB]"
definition qixuxueyu :: jsstring where "qixuxueyu = [0x6C14, 0x865A, 0x8840, 0x7600, 0x8BC1]"
definition zhengzhuang :: jsstring where "zhengzhuang = [0x75C7, 0x72B6]"
definition zhenghou :: jsstring where "zhenghou = [0x8BC1, 0x5019]"
definition shizhengzhuang :: jsstring where "shizhengzhuang = [0x662F, 0x75C7, 0x72B6]"

definition scenarioEntities :: "RawEntity list" where
  "scenarioEntities =
     [\<lparr>RawEntity.type = zhengzhuang, name = xiongmen\<rparr>,
      \<lparr>RawEntity.type = zhengzhuang, name = xiongtong\<rparr>,
      \<lparr>RawEntity.type = zhenghou, name = qixuxueyu\<rparr>]"

definition scenarioRelations :: "RawRelation list" where
  "scenarioRelations =
     [\<lparr>RawRelation.source = xiongmen, relation = shizhengzhuang, target = qixuxueyu\<rparr>,
      \<lparr>RawRelation.source = xiongtong, relation = shizhengzhuang, target = qixuxueyu\<rparr>]"

definition scenarioGraph :: GraphData where
  "scenarioGraph = generateCooccurrenceGraph scenarioEntities scenarioRelations zhenghou zhengzhuang"

lemma scenarioGraph_eq:
  "scenarioGraph =
     \<lparr>nodes = [\<lparr>GraphNode.id' = xiongmen, group = zhengzhuang, metrics = None, clusters = None\<rparr>,
               \<lparr>GraphNode.id' = xiongtong, group = zhengzhuang, metrics = None, clusters = None\<rparr>],
      links = [\<lparr>GraphLink.source = EndId xiongtong, target = EndId xiongmen,
                type = [0x63, 0x6F, 0x2D, 0x6F, 0x63, 0x63, 0x75, 0x72],
                weight = Some 1, association = None\<rparr>]\<rparr>"
  by (simp add: scenarioGraph_def generateCooccurrenceGraph_def scenarioEntities_def scenarioRelations_def
      scanRelation_def hasEntity_def registerItem_def setAdd_def Let_def bumpKey_def edgeKey_def
      keyLink_def splitBar_def bar_def xiongmen_def xiongtong_def qixuxueyu_def zhengzhuang_def zhenghou_def)

lemma scenario_vectors:
  "vectorOf (getAdjacency (nodes scenarioGraph) (links scenarioGraph) True)
      (map GraphNode.id' (nodes scenarioGraph)) xiongmen = [Fin 0, Fin 1]"
  "vectorOf (getAdjacency (nodes scenarioGraph) (links scenarioGraph) True)
      (map GraphNode.id' (nodes scenarioGraph)) xiongtong = [Fin 1, Fin 0]"
  by (simp_all add: scenarioGraph_eq vectorOf_def getAdjacency_def addLink_def adjPush_def linkWeight_def
        Let_def xiongmen_def xiongtong_def)

lemma scenario_tree:
  "calculateHierarchicalTree (nodes scenarioGraph) (links scenarioGraph)
       \<lparr>distanceType = euclidean, method_hc = complete\<rparr>
   = DendrogramNode [] (Some [DendrogramNode xiongmen None (Some (Fin 0)) (Some True),
                              DendrogramNode xiongtong None (Some (Fin 0)) (Some True)])
       (Some (Fin (sqrt 2))) None"
proof -
  define v where "v = vectorOf (getAdjacency (nodes scenarioGraph) (links scenarioGraph) True)
      (map GraphNode.id' (nodes scenarioGraph))"
  have va: "v xiongmen = [Fin 0, Fin 1]" "v xiongtong = [Fin 1, Fin 0]"
    unfolding v_def by (rule scenario_vectors)+
  let ?cfg = "\<lparr>distanceType = euclidean, method_hc = complete\<rparr>"
  let ?c1 = "\<lparr>members = [xiongmen], vec = [Fin 0, Fin 1],
              tree = DendrogramNode xiongmen None (Some (Fin 0)) (Some True)\<rparr>"
  let ?c2 = "\<lparr>members = [xiongtong], vec = [Fin 1, Fin 0],
              tree = DendrogramNode xiongtong None (Some (Fin 0)) (Some True)\<rparr>"
  have ne: "xiongmen \<noteq> []" by (simp add: xiongmen_def)
  have up: "[0..<2] = [0, Suc 0]" "[Suc 0..<2] = [Suc 0]" by (simp_all add: upt_rec)
  have d: "getClusterDist v ?cfg ?c1 ?c2 = Fin (sqrt 2)"
    by (simp add: getClusterDist_def calculateDistance_def va up nthJ_def jssub_def)
  have f: "findClosest v ?cfg [?c1, ?c2] = Some (Fin (sqrt 2), 0, Suc 0)"
    by (simp add: findClosest_def indexPairs_def closer_def d up)
  have m: "mergeClusters v [?c1, ?c2] (Fin (sqrt 2)) 0 (Suc 0)
         = [\<lparr>members = [xiongmen, xiongtong], vec = [Fin (1/2), Fin (1/2)],
             tree = DendrogramNode [] (Some [DendrogramNode xiongmen None (Some (Fin 0)) (Some True),
                              DendrogramNode xiongtong None (Some (Fin 0)) (Some True)])
                     (Some (Fin (sqrt 2))) None\<rparr>]"
    using ne by (simp add: mergeClusters_def Let_def va up nthJ_def)
  have l: "hcLoop v ?cfg [?c1, ?c2] = mergeClusters v [?c1, ?c2] (Fin (sqrt 2)) 0 (Suc 0)"
    by (rule hcLoop_last_merge [OF f]) (simp_all add: m)
  have init: "map (\<lambda>n. \<lparr>members = [GraphNode.id' n], vec = v (GraphNode.id' n),
                               tree = DendrogramNode (GraphNode.id' n) None (Some (Fin 0)) (Some True)\<rparr>)
                (nodes scenarioGraph) = [?c1, ?c2]"
    by (simp add: scenarioGraph_eq va)
  show ?thesis
    unfolding calculateHierarchicalTree_def Let_def v_def [symmetric]
    by (simp only: init l m) simp
qed

subsection \<open>Sums that stay finite\<close>

definition finBelow :: "real \<Rightarrow> jsnum \<Rightarrow> bool" where
  "finBelow B x \<longleftrightarrow> (\<exists>r. x = Fin r \<and> \<bar>r\<bar> \<le> B)"

lemma foldl_jsadd_nonneg:
  assumes "\<forall>x \<in> set xs. \<exists>r. t x = Fin r \<and> 0 \<le> r \<and> r \<le> M"
    and "0 \<le> s0" and "s0 + real (length xs) * M < dblLimit"
  shows "\<exists>s. foldl (\<lambda>s x. jsadd s (t x)) (Fin s0) xs = Fin s \<and> s0 \<le> s
            \<and> s \<le> s0 + real (length xs) * M"
  using assms
proof (induction xs arbitrary: s0)
  case Nil
  then show ?case by simp
next
  case (Cons x xs)
  obtain r where r: "t x = Fin r" "0 \<le> r" "r \<le> M" using Cons.prems(1) by auto
  have M0: "0 \<le> M" using r by simp
  have lenM: "0 \<le> real (length xs) * M" using M0 by simp
  have tot: "s0 + r + real (length xs) * M \<le> s0 + real (length (x # xs)) * M"
    using r(3) by (simp add: algebra_simps)
  have small: "\<bar>s0 + r\<bar> < dblLimit"
    using Cons.prems(2,3) r(2) tot lenM by simp
  have step: "jsadd (Fin s0) (t x) = Fin (s0 + r)"
    using small by (simp add: r(1) toJs_Fin)
  have "\<exists>s. foldl (\<lambda>s x. jsadd s (t x)) (Fin (s0 + r)) xs = Fin s \<and> s0 + r \<le> s
            \<and> s \<le> s0 + r + real (length xs) * M"
  proof (rule Cons.IH)
    show "\<forall>x \<in> set xs. \<exists>r. t x = Fin r \<and> 0 \<le> r \<and> r \<le> M" using Cons.prems(1) by simp
    show "0 \<le> s0 + r" using Cons.prems(2) r(2) by simp
    show "s0 + r + real (length xs) * M < dblLimit" using tot Cons.prems(3) by linarith
  qed
  then obtain s where s: "foldl (\<lambda>s x. jsadd s (t x)) (Fin (s0 + r)) xs = Fin s"
      "s0 + r \<le> s" "s \<le> s0 + r + real (length xs) * M"
    by blast
  have "foldl (\<lambda>s x. jsadd s (t x)) (Fin s0) (x # xs) = Fin s"
    by (simp only: foldl_Cons step s(1))
  moreover have "s0 \<le> s" using s(2) r(2) by linarith
  moreover have "s \<le> s0 + real (length (x # xs)) * M" using s(3) tot by linarith
  ultimately show ?case by blast
qed

lemma foldl_jsadd_signed:
  assumes "\<forall>x \<in> set xs. \<exists>r. t x = Fin r \<and> \<bar>r\<bar> \<le> M"
    and "\<bar>s0\<bar> + real (length xs) * M < dblLimit"
  shows "\<exists>s. foldl (\<lambda>s x. jsadd s (t x)) (Fin s0) xs = Fin s
            \<and> \<bar>s\<bar> \<le> \<bar>s0\<bar> + real (length xs) * M"
  using assms
proof (induction xs arbitrary: s0)
  case Nil
  then show ?case by simp
next
  case (Cons x xs)
  obtain r where r: "t x = Fin r" "\<bar>r\<bar> \<le> M" using Cons.prems(1) by auto
  have M0: "0 \<le> M" using r by linarith
  have lenM: "0 \<le> real (length xs) * M" using M0 by simp
  have tri: "\<bar>s0 + r\<bar> \<le> \<bar>s0\<bar> + M" using r(2) by linarith
  have tot: "\<bar>s0\<bar> + M + real (length xs) * M = \<bar>s0\<bar> + real (length (x # xs)) * M"
    by (simp add: algebra_simps)
  have small: "\<bar>s0 + r\<bar> < dblLimit"
    using Cons.prems(2) tri tot lenM by linarith
  have step: "jsadd (Fin s0) (t x) = Fin (s0 + r)"
    using small by (simp add: r(1) toJs_Fin)
  have "\<exists>s. foldl (\<lambda>s x. jsadd s (t x)) (Fin (s0 + r)) xs = Fin s
            \<and> \<bar>s\<bar> \<le> \<bar>s0 + r\<bar> + real (length xs) * M"
  proof (rule Cons.IH)
    show "\<forall>x \<in> set xs. \<exists>r. t x = Fin r \<and> \<bar>r\<bar> \<le> M" using Cons.prems(1) by simp
    show "\<bar>s0 + r\<bar> + real (length xs) * M < dblLimit"
      using tri tot Cons.prems(2) by linarith
  qed
  then obtain s where s: "foldl (\<lambda>s x. jsadd s (t x)) (Fin (s0 + r)) xs = Fin s"
      "\<bar>s\<bar> \<le> \<bar>s0 + r\<bar> + real (length xs) * M"
    by blast
  have "foldl (\<lambda>s x. jsadd s (t x)) (Fin s0) (x # xs) = Fin s"
    by (simp only: foldl_Cons step s(1))
  moreover have "\<bar>s\<bar> \<le> \<bar>s0\<bar> + real (length (x # xs)) * M"
    using s(2) tri tot by linarith
  ultimately show ?case by blast
qed

lemma foldl_jsmax_fin:
  assumes "\<forall>x \<in> set xs. \<exists>r. t x = Fin r \<and> 0 \<le> r \<and> r \<le> M"
    and "0 \<le> s0" and "s0 \<le> M"
  shows "\<exists>s. foldl (\<lambda>s x. jsmax s (t x)) (Fin s0) xs = Fin s \<and> 0 \<le> s \<and> s \<le> M"
  using assms
proof (induction xs arbitrary: s0)
  case Nil
  then show ?case by simp
next
  case (Cons x xs)
  obtain r where r: "t x = Fin r" "0 \<le> r" "r \<le> M" using Cons.prems(1) by auto
  have step: "jsmax (Fin s0) (t x) = Fin (max s0 r)" by (simp add: r(1))
  have "\<exists>s. foldl (\<lambda>s x. jsmax s (t x)) (Fin (max s0 r)) xs = Fin s \<and> 0 \<le> s \<and> s \<le> M"
  proof (rule Cons.IH)
    show "\<forall>x \<in> set xs. \<exists>r. t x = Fin r \<and> 0 \<le> r \<and> r \<le> M" using Cons.prems(1) by simp
    show "0 \<le> max s0 r" using r(2) by simp
    show "max s0 r \<le> M" using Cons.prems(3) r(3) by simp
  qed
  then show ?case by (simp only: foldl_Cons step)
qed

text \<open>
  The bound: \<open>n \<ge> 1\<close> vectors of length \<open>n\<close> with entries of absolute value at most
  \<open>B\<close>, where \<open>4 n\<^sup>3 B\<^sup>2 \<le> 2\<^sup>1\<^sup>0\<^sup>0\<^sup>0\<close>.
\<close>

lemma range_facts:
  assumes B1: "1 \<le> B" and n1: "1 \<le> n" and lim: "4 * real n ^ 3 * B ^ 2 \<le> 2 ^ 1000"
  shows "2 * B \<le> 4 * real n * B ^ 2"
    and "4 * B ^ 2 \<le> 4 * real n * B ^ 2"
    and "real n \<le> 4 * real n * B ^ 2"
    and "real n * (2 * B) \<le> 4 * real n * B ^ 2"
    and "real n * B \<le> 4 * real n * B ^ 2"
    and "B \<le> 4 * real n * B ^ 2"
    and "real n * real n * (4 * real n * B ^ 2) < dblLimit"
    and "4 * real n * B ^ 2 < dblLimit"
    and "1 \<le> 4 * real n * B ^ 2"
proof -
  have rn: "1 \<le> real n" using n1 by simp
  have BB: "B \<le> B ^ 2" using B1 by (simp add: power2_eq_square)
  have B2: "1 \<le> B ^ 2" using B1 BB by linarith
  have nB2: "B ^ 2 \<le> real n * B ^ 2"
    using mult_right_mono [OF rn, of "B ^ 2"] B2 by simp
  have nB: "real n * B \<le> real n * B ^ 2"
    using mult_left_mono [OF BB, of "real n"] rn by simp
  have nn: "real n \<le> real n * B ^ 2"
    using mult_left_mono [OF B2, of "real n"] rn by simp
  show "2 * B \<le> 4 * real n * B ^ 2" using BB nB2 B1 by linarith
  show "4 * B ^ 2 \<le> 4 * real n * B ^ 2" using nB2 by linarith
  show "real n \<le> 4 * real n * B ^ 2" using nn rn by linarith
  show "real n * (2 * B) \<le> 4 * real n * B ^ 2" using nB nn rn by linarith
  show "real n * B \<le> 4 * real n * B ^ 2" using nB nn rn by linarith
  show "B \<le> 4 * real n * B ^ 2" using BB nB2 B1 by linarith
  have e: "real n * real n * (4 * real n * B ^ 2) = 4 * real n ^ 3 * B ^ 2"
    by (simp add: power3_eq_cube)
  show k: "real n * real n * (4 * real n * B ^ 2) < dblLimit"
    unfolding e using lim dblLimit_big by linarith
  have D0: "0 \<le> 4 * real n * B ^ 2" using rn B2 by simp
  have nn1: "1 \<le> real n * real n" using mult_mono [OF rn rn] by simp
  have "1 * (4 * real n * B ^ 2) \<le> real n * real n * (4 * real n * B ^ 2)"
    by (rule mult_right_mono [OF nn1 D0])
  then show "4 * real n * B ^ 2 < dblLimit" using k by linarith
  show "1 \<le> 4 * real n * B ^ 2" using nn rn by linarith
qed

lemma calculateDistance_fin:
  assumes la: "length a = n" and lb: "length b = n"
    and fa: "\<forall>x \<in> set a. finBelow B x" and fb: "\<forall>x \<in> set b. finBelow B x"
    and B1: "1 \<le> B" and n1: "1 \<le> n" and lim: "4 * real n ^ 3 * B ^ 2 \<le> 2 ^ 1000"
  shows "\<exists>d. calculateDistance a b t = Fin d \<and> 0 \<le> d \<and> d \<le> 4 * real n * B ^ 2"
proof -
  let ?D = "4 * real n * B ^ 2"
  note rf = range_facts [OF B1 n1 lim]
  have ent: "\<exists>x y. a ! i = Fin x \<and> nthJ b i = Fin y \<and> \<bar>x\<bar> \<le> B \<and> \<bar>y\<bar> \<le> B" if "i < n" for i
  proof -
    have "a ! i \<in> set a" "b ! i \<in> set b" using that la lb by simp_all
    then have "finBelow B (a ! i)" "finBelow B (b ! i)" using fa fb by blast+
    moreover have "nthJ b i = b ! i" using that lb by (simp add: nthJ_def)
    ultimately show ?thesis by (auto simp: finBelow_def)
  qed
  have twoB: "2 * B < dblLimit" using rf(1) rf(8) by linarith
  have sub: "\<exists>z. jssub (a ! i) (nthJ b i) = Fin z \<and> \<bar>z\<bar> \<le> 2 * B" if i: "i < n" for i
  proof -
    obtain x y where xy: "a ! i = Fin x" "nthJ b i = Fin y" "\<bar>x\<bar> \<le> B" "\<bar>y\<bar> \<le> B"
      using ent [OF i] by blast
    have b: "\<bar>x + - y\<bar> \<le> 2 * B" using xy(3,4) by linarith
    then have "toJs (x + - y) = Fin (x + - y)" using twoB by (intro toJs_Fin) linarith
    then have "jssub (a ! i) (nthJ b i) = Fin (x + - y)" by (simp add: jssub_def xy(1,2))
    then show ?thesis using b by blast
  qed
  have e1: "\<forall>i \<in> set [0..<length a]. \<exists>r. jsabs (jssub (a ! i) (nthJ b i)) = Fin r \<and> 0 \<le> r \<and> r \<le> 2 * B"
  proof
    fix i assume "i \<in> set [0..<length a]"
    then have "i < n" using la by simp
    then obtain z where z: "jssub (a ! i) (nthJ b i) = Fin z" "\<bar>z\<bar> \<le> 2 * B" using sub by blast
    have "jsabs (jssub (a ! i) (nthJ b i)) = Fin \<bar>z\<bar>" by (simp add: z(1))
    then show "\<exists>r. jsabs (jssub (a ! i) (nthJ b i)) = Fin r \<and> 0 \<le> r \<and> r \<le> 2 * B"
      using z(2) by (intro exI [of _ "\<bar>z\<bar>"]) simp
  qed
  have e2: "\<forall>i \<in> set [0..<length a]. \<exists>r. jssq (jssub (a ! i) (nthJ b i)) = Fin r \<and> 0 \<le> r \<and> r \<le> 4 * B ^ 2"
  proof
    fix i assume "i \<in> set [0..<length a]"
    then have "i < n" using la by simp
    then obtain z where z: "jssub (a ! i) (nthJ b i) = Fin z" "\<bar>z\<bar> \<le> 2 * B" using sub by blast
    have "\<bar>z\<bar> ^ 2 \<le> (2 * B) ^ 2" using z(2) by (intro power_mono) simp_all
    then have zb: "z ^ 2 \<le> 4 * B ^ 2" by (simp add: power_mult_distrib)
    have "\<bar>z ^ 2\<bar> < dblLimit" using zb rf(2) rf(8) by simp
    then have "toJs (z ^ 2) = Fin (z ^ 2)" by (rule toJs_Fin)
    then have "jssq (jssub (a ! i) (nthJ b i)) = Fin (z ^ 2)" by (simp add: z(1))
    then show "\<exists>r. jssq (jssub (a ! i) (nthJ b i)) = Fin r \<and> 0 \<le> r \<and> r \<le> 4 * B ^ 2"
      using zb by (intro exI [of _ "z ^ 2"]) simp
  qed
  let ?lt = "\<lambda>i. if jsadd (jsabs (a ! i)) (jsabs (nthJ b i)) = Fin 0 then Fin 0
                    else jsdiv (jsabs (jssub (a ! i) (nthJ b i)))
                               (jsadd (jsabs (a ! i)) (jsabs (nthJ b i)))"
  have e3: "\<forall>i \<in> set [0..<length a]. \<exists>r. ?lt i = Fin r \<and> 0 \<le> r \<and> r \<le> 1"
  proof
    fix i assume "i \<in> set [0..<length a]"
    then have i: "i < n" using la by simp
    obtain x y where xy: "a ! i = Fin x" "nthJ b i = Fin y" "\<bar>x\<bar> \<le> B" "\<bar>y\<bar> \<le> B"
      using ent [OF i] by blast
    obtain z where z: "jssub (a ! i) (nthJ b i) = Fin z" "\<bar>z\<bar> \<le> 2 * B" using sub [OF i] by blast
    have zz: "z = x + - y"
    proof -
      have "\<bar>x + - y\<bar> \<le> 2 * B" using xy(3,4) by linarith
      then have "toJs (x + - y) = Fin (x + - y)" using twoB by (intro toJs_Fin) linarith
      then have "jssub (a ! i) (nthJ b i) = Fin (x + - y)" by (simp add: jssub_def xy(1,2))
      then show ?thesis using z(1) by simp
    qed
    have "\<bar>\<bar>x\<bar> + \<bar>y\<bar>\<bar> < dblLimit" using xy(3,4) twoB by linarith
    then have den: "jsadd (jsabs (a ! i)) (jsabs (nthJ b i)) = Fin (\<bar>x\<bar> + \<bar>y\<bar>)"
      by (simp add: xy(1,2) toJs_Fin)
    show "\<exists>r. ?lt i = Fin r \<and> 0 \<le> r \<and> r \<le> 1"
    proof (cases "\<bar>x\<bar> + \<bar>y\<bar> = 0")
      case True
      then have "?lt i = Fin 0" by (simp only: den) simp
      then show ?thesis by (intro exI [of _ 0]) simp
    next
      case False
      then have pos: "0 < \<bar>x\<bar> + \<bar>y\<bar>" by linarith
      have le: "\<bar>z\<bar> \<le> \<bar>x\<bar> + \<bar>y\<bar>" unfolding zz by linarith
      have q1: "\<bar>z\<bar> / (\<bar>x\<bar> + \<bar>y\<bar>) \<le> 1" using le pos by simp
      have q0: "0 \<le> \<bar>z\<bar> / (\<bar>x\<bar> + \<bar>y\<bar>)" using pos by simp
      have "1 < dblLimit" using rf(9) rf(8) by linarith
      then have "\<bar>\<bar>z\<bar> / (\<bar>x\<bar> + \<bar>y\<bar>)\<bar> < dblLimit" using q0 q1 by linarith
      then have tj: "toJs (\<bar>z\<bar> / (\<bar>x\<bar> + \<bar>y\<bar>)) = Fin (\<bar>z\<bar> / (\<bar>x\<bar> + \<bar>y\<bar>))" by (rule toJs_Fin)
      have "?lt i = jsdiv (Fin \<bar>z\<bar>) (Fin (\<bar>x\<bar> + \<bar>y\<bar>))"
        using False by (simp only: den z(1)) simp
      also have "\<dots> = Fin (\<bar>z\<bar> / (\<bar>x\<bar> + \<bar>y\<bar>))" using False tj by simp
      finally show ?thesis using q0 q1 by blast
    qed
  qed
  have len: "real (length [0..<length a]) = real n" using la by simp
  show ?thesis
  proof (cases t)
    case manhattan
    have "0 + real (length [0..<length a]) * (2 * B) < dblLimit"
      unfolding len using rf(4) rf(8) by linarith
    from foldl_jsadd_nonneg [OF e1 _ this]
    obtain s where s: "foldl (\<lambda>s i. jsadd s (jsabs (jssub (a ! i) (nthJ b i)))) (Fin 0) [0..<length a] = Fin s"
        "0 \<le> s" "s \<le> 0 + real (length [0..<length a]) * (2 * B)"
      by auto
    have "s \<le> ?D" using s(3) rf(4) unfolding len by linarith
    moreover have "calculateDistance a b t = Fin s"
      by (simp add: calculateDistance_def manhattan s(1))
    ultimately show ?thesis using s(2) by blast
  next
    case chebyshev
    have B0: "(0::real) \<le> 2 * B" using B1 by simp
    from foldl_jsmax_fin [OF e1 _ B0]
    obtain s where s: "foldl (\<lambda>s i. jsmax s (jsabs (jssub (a ! i) (nthJ b i)))) (Fin 0) [0..<length a] = Fin s"
        "0 \<le> s" "s \<le> 2 * B"
      by auto
    have "s \<le> ?D" using s(3) rf(1) by linarith
    moreover have "calculateDistance a b t = Fin s"
      by (simp add: calculateDistance_def chebyshev s(1))
    ultimately show ?thesis using s(2) by blast
  next
    case lance
    have "0 + real (length [0..<length a]) * 1 < dblLimit"
      unfolding len using rf(3) rf(8) by linarith
    from foldl_jsadd_nonneg [OF e3 _ this]
    obtain s where s: "foldl (\<lambda>s i. jsadd s (?lt i)) (Fin 0) [0..<length a] = Fin s"
        "0 \<le> s" "s \<le> 0 + real (length [0..<length a]) * 1"
      by auto
    have "s \<le> ?D" using s(3) rf(3) unfolding len by linarith
    moreover have "calculateDistance a b t = Fin s"
      by (simp add: calculateDistance_def lance s(1))
    ultimately show ?thesis using s(2) by blast
  next
    case euclidean
    have "0 + real (length [0..<length a]) * (4 * B ^ 2) < dblLimit"
      unfolding len using rf(8) by (simp add: algebra_simps)
    from foldl_jsadd_nonneg [OF e2 _ this]
    obtain s where s: "foldl (\<lambda>s i. jsadd s (jssq (jssub (a ! i) (nthJ b i)))) (Fin 0) [0..<length a] = Fin s"
        "0 \<le> s" "s \<le> 0 + real (length [0..<length a]) * (4 * B ^ 2)"
      by auto
    have sD: "s \<le> ?D" using s(3) unfolding len by (simp add: algebra_simps)
    have "sqrt s \<le> ?D"
    proof (cases "s \<le> 1")
      case True
      then have "sqrt s \<le> 1" by simp
      then show ?thesis using rf(9) by linarith
    next
      case False
      then have "sqrt s \<le> s" by (simp add: sqrt_le_D power2_eq_square real_le_lsqrt)
      then show ?thesis using sD by linarith
    qed
    moreover have "0 \<le> sqrt s" using s(2) by simp
    moreover have "calculateDistance a b t = Fin (sqrt s)"
      using s(2) by (simp add: calculateDistance_def euclidean s(1))
    ultimately show ?thesis by blast
  qed
qed

subsection \<open>Invariant of the agglomeration loop\<close>

definition hcInv :: "HierConfig \<Rightarrow> real \<Rightarrow> nat \<Rightarrow> jsstring multiset \<Rightarrow> Cluster list \<Rightarrow> bool" where
  "hcInv config B n M cs \<longleftrightarrow>
     cs \<noteq> [] \<and> size M = n
   \<and> sum_mset (image_mset (\<lambda>c. mset (leafNames (tree c))) (mset cs)) = M
   \<and> sum_mset (image_mset (\<lambda>c. internalCount (tree c)) (mset cs)) + length cs = n
   \<and> (\<forall>c \<in> set cs. binaryTree (tree c) \<and> members c \<noteq> [] \<and> members c = leafNames (tree c))
   \<and> (method_hc config = centroid \<and> 1 < length cs \<longrightarrow>
        (\<forall>c \<in> set cs. length (vec c) = n \<and> (\<forall>x \<in> set (vec c). finBelow B x)))"

lemma zip_upt_nth: "zip [0..<length xs] xs = map (\<lambda>k. (k, xs ! k)) [0..<length xs]"
  by (rule nth_equalityI) simp_all

lemma filter_index_map:
  "map snd (filter (\<lambda>(idx, c). idx \<noteq> i \<and> idx \<noteq> j) (zip [0..<length xs] xs))
   = map (\<lambda>k. xs ! k) (filter (\<lambda>k. k \<noteq> i \<and> k \<noteq> j) [0..<length xs])"
  by (simp add: zip_upt_nth filter_map comp_def)

lemma mset_remove_two:
  assumes "i < j" "j < length xs"
  shows "mset (map snd (filter (\<lambda>(idx, c). idx \<noteq> i \<and> idx \<noteq> j) (zip [0..<length xs] xs)))
         + {#xs ! i, xs ! j#} = mset xs"
proof -
  let ?Q = "\<lambda>k. k \<noteq> i \<and> k \<noteq> j"
  have two: "mset (filter (\<lambda>k. \<not> ?Q k) [0..<length xs]) = {#i, j#}"
  proof -
    have "mset (filter (\<lambda>k. \<not> ?Q k) [0..<length xs]) = mset_set {k \<in> {0..<length xs}. \<not> ?Q k}"
    proof -
      have "distinct (filter (\<lambda>k. \<not> ?Q k) [0..<length xs])" by simp
      from mset_set_set [OF this] show ?thesis by simp
    qed
    also have "{k \<in> {0..<length xs}. \<not> ?Q k} = {i, j}" using assms by auto
    also have "mset_set {i, j} = {#i, j#}" using assms by simp
    finally show ?thesis .
  qed
  have "mset xs = image_mset (\<lambda>k. xs ! k) (mset [0..<length xs])"
    by (metis map_nth mset_map)
  also have "mset [0..<length xs] = mset (filter ?Q [0..<length xs]) + mset (filter (\<lambda>k. \<not> ?Q k) [0..<length xs])"
    by (metis mset_filter multiset_partition)
  also have "image_mset (\<lambda>k. xs ! k) (mset (filter ?Q [0..<length xs]) + mset (filter (\<lambda>k. \<not> ?Q k) [0..<length xs]))
     = mset (map (\<lambda>k. xs ! k) (filter ?Q [0..<length xs])) + {#xs ! i, xs ! j#}"
    by (simp only: image_mset_union two mset_map image_mset_add_mset image_mset_empty)
  finally show ?thesis
    by (simp only: filter_index_map)
qed

lemma leaves_le_total:
  assumes "c \<in> set cs"
  shows "length (leafNames (tree c))
       \<le> size (sum_mset (image_mset (\<lambda>c. mset (leafNames (tree c))) (mset cs)))"
    and "set (leafNames (tree c))
       \<subseteq> set_mset (sum_mset (image_mset (\<lambda>c. mset (leafNames (tree c))) (mset cs)))"
proof -
  have "c \<in># mset cs" using assms by simp
  then obtain R where R: "mset cs = add_mset c R" by (metis insert_DiffM)
  show "length (leafNames (tree c))
       \<le> size (sum_mset (image_mset (\<lambda>c. mset (leafNames (tree c))) (mset cs)))"
    unfolding R by simp
  show "set (leafNames (tree c))
       \<subseteq> set_mset (sum_mset (image_mset (\<lambda>c. mset (leafNames (tree c))) (mset cs)))"
    unfolding R by simp
qed

lemma hcInv_members:
  assumes inv: "hcInv config B n M cs" and c: "c \<in> set cs"
  shows "members c \<noteq> []" and "length (members c) \<le> n" and "set (members c) \<subseteq> set_mset M"
    and "1 \<le> n" and "length cs \<le> n"
proof -
  have "\<forall>c \<in> set cs. binaryTree (tree c) \<and> members c \<noteq> [] \<and> members c = leafNames (tree c)"
    using inv unfolding hcInv_def by blast
  then have m: "members c = leafNames (tree c)" "members c \<noteq> []"
    using c by blast+
  have tot: "sum_mset (image_mset (\<lambda>c. mset (leafNames (tree c))) (mset cs)) = M" "size M = n"
    using inv by (simp_all add: hcInv_def)
  show "members c \<noteq> []" by (rule m(2))
  show "length (members c) \<le> n"
    using leaves_le_total(1) [OF c] unfolding m(1) tot .
  show "set (members c) \<subseteq> set_mset M"
    using leaves_le_total(2) [OF c] unfolding m(1) tot(1) .
  have cnt: "sum_mset (image_mset (\<lambda>c. internalCount (tree c)) (mset cs)) + length cs = n"
    and ne: "cs \<noteq> []"
    using inv by (simp_all add: hcInv_def)
  show "length cs \<le> n" using cnt by linarith
  have "1 \<le> length cs" using ne by (cases cs) simp_all
  then show "1 \<le> n" using cnt by linarith
qed

lemma length_concat_pairs:
  "length (concat (map (\<lambda>m1. map (f m1) ys) xs)) = length xs * length ys"
  by (induction xs) simp_all

lemma getClusterDist_fin:
  assumes inv: "hcInv config B n M cs" and c: "c1 \<in> set cs" "c2 \<in> set cs"
    and l: "1 < length cs"
    and vs: "\<forall>m. length (vectors m) = n \<and> (\<forall>x \<in> set (vectors m). finBelow B x)"
    and B1: "1 \<le> B" and lim: "4 * real n ^ 3 * B ^ 2 \<le> 2 ^ 1000"
  shows "\<exists>d. getClusterDist vectors config c1 c2 = Fin d"
proof -
  let ?D = "4 * real n * B ^ 2"
  have n1: "1 \<le> n" by (rule hcInv_members(4) [OF inv c(1)])
  note rf = range_facts [OF B1 n1 lim]
  show ?thesis
  proof (cases "method_hc config = centroid")
    case True
    then have good: "\<forall>c \<in> set cs. length (vec c) = n \<and> (\<forall>x \<in> set (vec c). finBelow B x)"
      using inv l by (simp add: hcInv_def)
    have "\<exists>d. calculateDistance (vec c1) (vec c2) (distanceType config) = Fin d \<and> 0 \<le> d \<and> d \<le> ?D"
      by (rule calculateDistance_fin [OF _ _ _ _ B1 n1 lim]) (use good c in simp_all)
    then show ?thesis using True by (auto simp: getClusterDist_def)
  next
    case False
    define dists where "dists = concat (map (\<lambda>m1. map (\<lambda>m2.
                            calculateDistance (vectors m1) (vectors m2) (distanceType config))
                          (members c2)) (members c1))"
    have each: "\<forall>x \<in> set dists. \<exists>r. x = Fin r \<and> 0 \<le> r \<and> r \<le> ?D"
    proof
      fix x assume "x \<in> set dists"
      then obtain m1 m2 where "x = calculateDistance (vectors m1) (vectors m2) (distanceType config)"
        by (auto simp: dists_def)
      moreover have "\<exists>d. calculateDistance (vectors m1) (vectors m2) (distanceType config) = Fin d
                       \<and> 0 \<le> d \<and> d \<le> ?D"
        by (rule calculateDistance_fin [OF _ _ _ _ B1 n1 lim]) (use vs in simp_all)
      ultimately show "\<exists>r. x = Fin r \<and> 0 \<le> r \<and> r \<le> ?D" by simp
    qed
    have ld: "length dists = length (members c1) * length (members c2)"
      unfolding dists_def by (rule length_concat_pairs)
    have m1: "members c1 \<noteq> []" "length (members c1) \<le> n"
      by (rule hcInv_members [OF inv c(1)])+
    have m2: "members c2 \<noteq> []" "length (members c2) \<le> n"
      by (rule hcInv_members [OF inv c(2)])+
    have pos: "0 < length dists" using m1(1) m2(1) ld by simp
    have "length dists \<le> n * n" unfolding ld by (rule mult_le_mono [OF m1(2) m2(2)])
    then have lr: "real (length dists) \<le> real n * real n"
      by (metis of_nat_le_iff of_nat_mult)
    have D0: "0 \<le> ?D" using rf(9) by linarith
    have tot: "real (length dists) * ?D < dblLimit"
      using mult_right_mono [OF lr D0] rf(7) by linarith
    show ?thesis
    proof (cases "method_hc config = complete")
      case True
      obtain x xs where xs: "dists = x # xs" using pos by (cases dists) simp_all
      obtain r where r: "x = Fin r" "0 \<le> r" "r \<le> ?D" using each xs by auto
      have rest: "\<forall>y \<in> set xs. \<exists>r. y = Fin r \<and> 0 \<le> r \<and> r \<le> ?D" using each xs by simp
      from foldl_jsmax_fin [OF rest r(2) r(3)]
      obtain s where "foldl (\<lambda>s x. jsmax s x) (Fin r) xs = Fin s" by blast
      then have "foldl jsmax NInf dists = Fin s" by (simp add: xs r(1))
      then show ?thesis
        using False True by (simp add: getClusterDist_def Let_def dists_def [symmetric])
    next
      case notc: False
      have "0 + real (length dists) * ?D < dblLimit" using tot by simp
      from foldl_jsadd_nonneg [OF each _ this]
      obtain s where s: "foldl (\<lambda>s x. jsadd s x) (Fin 0) dists = Fin s" "0 \<le> s"
          "s \<le> 0 + real (length dists) * ?D"
        by auto
      have rl: "0 < real (length dists)" using pos by simp
      have q: "s / real (length dists) \<le> ?D"
        using s(3) rl by (simp add: pos_divide_le_eq mult.commute)
      have q0: "0 \<le> s / real (length dists)" using s(2) rl by simp
      have "\<bar>s / real (length dists)\<bar> < dblLimit" using q q0 rf(8) by linarith
      then have "toJs (s / real (length dists)) = Fin (s / real (length dists))" by (rule toJs_Fin)
      then have "jsdiv (foldl jsadd (Fin 0) dists) (Fin (real (length dists)))
               = Fin (s / real (length dists))"
        using rl by (simp add: s(1))
      then show ?thesis
        using False notc by (simp add: getClusterDist_def Let_def dists_def [symmetric])
    qed
  qed
qed

lemma newVec_fin:
  assumes vs: "\<forall>m. length (vectors m) = n \<and> (\<forall>x \<in> set (vectors m). finBelow B x)"
    and ms: "ms \<noteq> []" "length ms \<le> n"
    and B1: "1 \<le> B" and n1: "1 \<le> n" and lim: "4 * real n ^ 3 * B ^ 2 \<le> 2 ^ 1000"
    and i: "i < n"
  shows "finBelow B (jsdiv (foldl (\<lambda>sum m. jsadd sum (nthJ (vectors m) i)) (Fin 0) ms)
                       (Fin (real (length ms))))"
proof -
  note rf = range_facts [OF B1 n1 lim]
  have each: "\<forall>m \<in> set ms. \<exists>r. nthJ (vectors m) i = Fin r \<and> \<bar>r\<bar> \<le> B"
  proof
    fix m assume "m \<in> set ms"
    have "vectors m ! i \<in> set (vectors m)" using vs i by simp
    then have "finBelow B (vectors m ! i)" using vs by blast
    moreover have "nthJ (vectors m) i = vectors m ! i" using vs i by (simp add: nthJ_def)
    ultimately show "\<exists>r. nthJ (vectors m) i = Fin r \<and> \<bar>r\<bar> \<le> B" by (simp add: finBelow_def)
  qed
  have B0: "0 \<le> B" using B1 by simp
  have lr: "real (length ms) \<le> real n" using ms(2) by simp
  have "real (length ms) * B \<le> real n * B" by (rule mult_right_mono [OF lr B0])
  then have "\<bar>0\<bar> + real (length ms) * B < dblLimit" using rf(5) rf(8) by simp
  from foldl_jsadd_signed [OF each this]
  obtain s where s: "foldl (\<lambda>s m. jsadd s (nthJ (vectors m) i)) (Fin 0) ms = Fin s"
      "\<bar>s\<bar> \<le> \<bar>0\<bar> + real (length ms) * B"
    by blast
  have rl: "0 < real (length ms)" using ms(1) by simp
  have "\<bar>s\<bar> / real (length ms) \<le> B"
    using s(2) rl by (simp add: pos_divide_le_eq mult.commute)
  then have q: "\<bar>s / real (length ms)\<bar> \<le> B" using rl by simp
  have "B < dblLimit" using rf(6) rf(8) by linarith
  then have "\<bar>s / real (length ms)\<bar> < dblLimit" using q by linarith
  then have "toJs (s / real (length ms)) = Fin (s / real (length ms))" by (rule toJs_Fin)
  then have "jsdiv (foldl (\<lambda>sum m. jsadd sum (nthJ (vectors m) i)) (Fin 0) ms)
                       (Fin (real (length ms))) = Fin (s / real (length ms))"
    using rl by (simp add: s(1))
  then show ?thesis using q by (simp add: finBelow_def)
qed

lemma mergeClusters_inv:
  assumes inv: "hcInv config B n M cs" and ij: "i < j" "j < length cs"
    and vs: "\<forall>m. length (vectors m) = n \<and> (\<forall>x \<in> set (vectors m). finBelow B x)"
    and B1: "1 \<le> B" and lim: "4 * real n ^ 3 * B ^ 2 \<le> 2 ^ 1000"
    and noempty: "method_hc config = centroid \<and> 2 < n \<longrightarrow> [] \<notin># M"
  shows "hcInv config B n M (mergeClusters vectors cs d i j)"
proof -
  define rest where "rest = map snd (filter (\<lambda>(idx, c). idx \<noteq> i \<and> idx \<noteq> j) (zip [0..<length cs] cs))"
  define c1 where "c1 = cs ! i"
  define c2 where "c2 = cs ! j"
  define newMembers where "newMembers = members c1 @ members c2"
  define newVec where "newVec = (if newMembers \<noteq> [] \<and> hd newMembers \<noteq> []
                    then map (\<lambda>i. jsdiv (foldl (\<lambda>sum m. jsadd sum (nthJ (vectors m) i)) (Fin 0) newMembers)
                                       (Fin (real (length newMembers))))
                           [0..<length (vectors (hd newMembers))]
                    else [])"
  define new where "new = \<lparr>members = newMembers, vec = newVec,
                        tree = DendrogramNode [] (Some [tree c1, tree c2]) (Some d) None\<rparr>"
  have merged: "mergeClusters vectors cs d i j = rest @ [new]"
    by (simp add: mergeClusters_def Let_def rest_def c1_def c2_def newMembers_def newVec_def new_def)
  have part: "mset rest + {#c1, c2#} = mset cs"
    unfolding rest_def c1_def c2_def by (rule mset_remove_two [OF ij])
  have c12: "c1 \<in> set cs" "c2 \<in> set cs"
    using ij by (simp_all add: c1_def c2_def)
  have restsub: "set rest \<subseteq> set cs"
    by (metis part mset_subset_eq_add_left set_mset_mono set_mset_mset)
  have lenrest: "length rest + 2 = length cs"
    using arg_cong [OF part, of size] by simp
  have sz: "size M = n" using inv by (simp add: hcInv_def)
  have old: "\<And>c. c \<in> set cs \<Longrightarrow> binaryTree (tree c) \<and> members c \<noteq> []
         \<and> members c = leafNames (tree c)"
    using inv unfolding hcInv_def by blast
  have leaves: "sum_mset (image_mset (\<lambda>c. mset (leafNames (tree c))) (mset (rest @ [new]))) = M"
  proof -
    have "sum_mset (image_mset (\<lambda>c. mset (leafNames (tree c))) (mset cs)) = M"
      using inv by (simp add: hcInv_def)
    then show ?thesis
      unfolding part [symmetric] by (simp add: new_def ac_simps)
  qed
  have internal: "sum_mset (image_mset (\<lambda>c. internalCount (tree c)) (mset (rest @ [new]))) + length (rest @ [new]) = n"
  proof -
    have "sum_mset (image_mset (\<lambda>c. internalCount (tree c)) (mset cs)) + length cs = n"
      using inv by (simp add: hcInv_def)
    then show ?thesis
      unfolding part [symmetric] using lenrest by (simp add: new_def)
  qed
  have "members c1 \<noteq> []" using old [OF c12(1)] by blast
  then have nm: "newMembers \<noteq> []" by (simp add: newMembers_def)
  have nleaf: "members new = leafNames (tree new)"
  proof -
    have "members c1 = leafNames (tree c1)" "members c2 = leafNames (tree c2)"
      using old [OF c12(1)] old [OF c12(2)] by blast+
    then show ?thesis by (simp add: new_def newMembers_def)
  qed
  have newok: "binaryTree (tree new) \<and> members new \<noteq> [] \<and> members new = leafNames (tree new)"
  proof (intro conjI)
    show "binaryTree (tree new)" using old [OF c12(1)] old [OF c12(2)] by (simp add: new_def)
    show "members new \<noteq> []" using nm by (simp add: new_def)
    show "members new = leafNames (tree new)" by (rule nleaf)
  qed
  have each: "\<forall>c \<in> set (rest @ [new]). binaryTree (tree c) \<and> members c \<noteq> []
         \<and> members c = leafNames (tree c)"
  proof
    fix c assume "c \<in> set (rest @ [new])"
    then have "c \<in> set cs \<or> c = new" using restsub by auto
    then show "binaryTree (tree c) \<and> members c \<noteq> [] \<and> members c = leafNames (tree c)"
      using old newok by blast
  qed
  have newin: "new \<in> set (rest @ [new])" by simp
  have nlen: "length newMembers \<le> n"
  proof -
    have "length (leafNames (tree new)) \<le> size M"
      using leaves_le_total(1) [OF newin] unfolding leaves .
    then show ?thesis using nleaf sz by (simp add: new_def)
  qed
  have nsub: "set newMembers \<subseteq> set_mset M"
  proof -
    have "set (leafNames (tree new)) \<subseteq> set_mset M"
      using leaves_le_total(2) [OF newin] unfolding leaves .
    then show ?thesis using nleaf by (simp add: new_def)
  qed
  have n1: "1 \<le> n" by (rule hcInv_members(4) [OF inv c12(1)])
  have lcs: "length cs \<le> n" by (rule hcInv_members(5) [OF inv c12(1)])
  have good: "method_hc config = centroid \<and> 1 < length (rest @ [new]) \<longrightarrow>
        (\<forall>c \<in> set (rest @ [new]). length (vec c) = n \<and> (\<forall>x \<in> set (vec c). finBelow B x))"
  proof (intro impI)
    assume a: "method_hc config = centroid \<and> 1 < length (rest @ [new])"
    then have "0 < length rest" by simp
    then have l3: "2 < length cs" using lenrest by linarith
    then have "2 < n" using lcs by linarith
    then have ne: "[] \<notin># M" using noempty a by blast
    have "1 < length cs" using l3 by simp
    then have oldgood: "\<forall>c \<in> set cs. length (vec c) = n \<and> (\<forall>x \<in> set (vec c). finBelow B x)"
      using inv a unfolding hcInv_def by blast
    have "hd newMembers \<in> set newMembers" using nm by (rule hd_in_set)
    then have "hd newMembers \<in># M" using nsub by blast
    then have hdne: "hd newMembers \<noteq> []" using ne by metis
    have lv: "length (vectors (hd newMembers)) = n" using vs by blast
    have nv: "newVec = map (\<lambda>i. jsdiv (foldl (\<lambda>sum m. jsadd sum (nthJ (vectors m) i)) (Fin 0) newMembers)
                                       (Fin (real (length newMembers)))) [0..<n]"
      unfolding newVec_def lv using nm hdne by simp
    have nvlen: "length newVec = n" unfolding nv by simp
    have nvfin: "\<forall>x \<in> set newVec. finBelow B x"
    proof
      fix x assume "x \<in> set newVec"
      then obtain k where k: "k < n"
          "x = jsdiv (foldl (\<lambda>sum m. jsadd sum (nthJ (vectors m) k)) (Fin 0) newMembers)
                                       (Fin (real (length newMembers)))"
        unfolding nv by auto
      show "finBelow B x"
        unfolding k(2) by (rule newVec_fin [OF vs nm nlen B1 n1 lim k(1)])
    qed
    show "\<forall>c \<in> set (rest @ [new]). length (vec c) = n \<and> (\<forall>x \<in> set (vec c). finBelow B x)"
    proof
      fix c assume "c \<in> set (rest @ [new])"
      then have "c \<in> set cs \<or> c = new" using restsub by auto
      then show "length (vec c) = n \<and> (\<forall>x \<in> set (vec c). finBelow B x)"
      proof
        assume "c \<in> set cs"
        then show ?thesis using oldgood by blast
      next
        assume "c = new"
        then have "vec c = newVec" by (simp add: new_def)
        then show ?thesis using nvlen nvfin by simp
      qed
    qed
  qed
  have "rest @ [new] \<noteq> []" by simp
  then show ?thesis
    unfolding merged hcInv_def using sz leaves internal each good by blast
qed

lemma foldl_closer_Some:
  "best \<noteq> None \<Longrightarrow> foldl (closer vectors config cs) best ps \<noteq> None"
proof (induction ps arbitrary: best)
  case Nil
  then show ?case by simp
next
  case (Cons p ps)
  have "closer vectors config cs best p \<noteq> None"
    using Cons.prems by (simp add: closer_def Let_def)
  then show ?case using Cons.IH by simp
qed

lemma indexPairs_first: "1 < n \<Longrightarrow> \<exists>ps. indexPairs n = (0, 1) # ps"
proof -
  assume n: "1 < n"
  then have "[0..<n] = 0 # [Suc 0..<n]" "[Suc 0..<n] = Suc 0 # [Suc (Suc 0)..<n]"
    by (simp_all add: upt_conv_Cons)
  then show ?thesis by (simp add: indexPairs_def)
qed

lemma findClosest_defined:
  assumes inv: "hcInv config B n M cs" and l: "1 < length cs"
    and vs: "\<forall>m. length (vectors m) = n \<and> (\<forall>x \<in> set (vectors m). finBelow B x)"
    and B1: "1 \<le> B" and lim: "4 * real n ^ 3 * B ^ 2 \<le> 2 ^ 1000"
  shows "findClosest vectors config cs \<noteq> None"
proof -
  obtain ps where ps: "indexPairs (length cs) = (0, 1) # ps"
    using indexPairs_first [OF l] by blast
  have in0: "cs ! 0 \<in> set cs" and in1: "cs ! 1 \<in> set cs" using l by (auto intro: nth_mem)
  obtain d where d: "getClusterDist vectors config (cs ! 0) (cs ! 1) = Fin d"
    using getClusterDist_fin [OF inv in0 in1 l vs B1 lim] by blast
  have "closer vectors config cs None (0, 1) \<noteq> None"
    unfolding closer_def Let_def fst_conv snd_conv d by simp
  then show ?thesis
    unfolding findClosest_def ps using foldl_closer_Some by simp
qed

lemma hcLoop_inv:
  "\<forall>m. length (vectors m) = n \<and> (\<forall>x \<in> set (vectors m). finBelow B x) \<Longrightarrow>
   1 \<le> B \<Longrightarrow> 4 * real n ^ 3 * B ^ 2 \<le> 2 ^ 1000 \<Longrightarrow>
   method_hc config = centroid \<and> 2 < n \<longrightarrow> [] \<notin># M \<Longrightarrow>
   hcInv config B n M cs \<Longrightarrow>
         hcInv config B n M (hcLoop vectors config cs) \<and> length (hcLoop vectors config cs) = 1"
proof (induction vectors config cs rule: hcLoop.induct)
  case (1 vectors config cs)
  note vs = "1.prems"(1) and B1 = "1.prems"(2) and lim = "1.prems"(3)
    and noempty = "1.prems"(4) and inv = "1.prems"(5)
  show ?case
  proof (cases "1 < length cs")
    case False
    moreover have "cs \<noteq> []" using inv by (simp add: hcInv_def)
    ultimately have l1: "length cs = 1" by (cases cs) auto
    have "hcLoop vectors config cs = cs" using l1 by (subst hcLoop.simps) simp
    then show ?thesis using inv l1 by simp
  next
    case True
    have "findClosest vectors config cs \<noteq> None"
      by (rule findClosest_defined [OF inv True vs B1 lim])
    then obtain d i j where f: "findClosest vectors config cs = Some (d, i, j)"
      by (cases "findClosest vectors config cs") auto
    have ij: "i < j" "j < length cs" using findClosest_bounds [OF f] by simp_all
    have minv: "hcInv config B n M (mergeClusters vectors cs d i j)"
      by (rule mergeClusters_inv [OF inv ij vs B1 lim noempty])
    have "hcInv config B n M (hcLoop vectors config (mergeClusters vectors cs d i j))
         \<and> length (hcLoop vectors config (mergeClusters vectors cs d i j)) = 1"
      by (rule "1.IH" [OF True f refl refl vs B1 lim noempty minv])
    moreover have "hcLoop vectors config cs = hcLoop vectors config (mergeClusters vectors cs d i j)"
      using True f by (subst hcLoop.simps) simp
    ultimately show ?thesis by simp
  qed
qed

lemma adjacency_weights:
  assumes "map_of (getAdjacency ns ls weighted) v = Some es" and "e \<in> set es"
  shows "Neighbor.weight e \<in> linkWeight weighted ` set ls"
proof -
  have "es = concat (map (linkEntries weighted v) ls)"
    using assms(1) by (simp add: getAdjacency_lookup split: if_splits)
  then obtain l where "l \<in> set ls" "e \<in> set (linkEntries weighted v l)"
    using assms(2) by auto
  then show ?thesis by (auto simp: linkEntries_def split: if_splits)
qed

lemma vectorOf_fin:
  assumes w: "\<forall>l \<in> set ls. \<bar>linkWeight True l\<bar> \<le> B" and B0: "0 \<le> B"
  shows "length (vectorOf (getAdjacency ns ls True) ids m) = length ids
       \<and> (\<forall>x \<in> set (vectorOf (getAdjacency ns ls True) ids m). finBelow B x)"
proof
  show "length (vectorOf (getAdjacency ns ls True) ids m) = length ids"
    by (simp add: vectorOf_def)
  show "\<forall>x \<in> set (vectorOf (getAdjacency ns ls True) ids m). finBelow B x"
  proof
    let ?f = "\<lambda>i. if i = m then Fin 0
              else (case map_of (getAdjacency ns ls True) m of
                      None \<Rightarrow> Fin 0
                    | Some es \<Rightarrow> (case List.find (\<lambda>x. Neighbor.id' x = i) es of
                                   None \<Rightarrow> Fin 0
                                 | Some neighbor \<Rightarrow> Fin (Neighbor.weight neighbor)))"
    fix x assume xin: "x \<in> set (vectorOf (getAdjacency ns ls True) ids m)"
    have "x \<in> ?f ` set ids" using xin unfolding vectorOf_def set_map .
    then obtain i where x: "x = ?f i" by (rule imageE)
    have z: "finBelow B (Fin 0)" using B0 by (simp add: finBelow_def)
    show "finBelow B x"
    proof (cases "i = m")
      case True
      then show ?thesis using x z by simp
    next
      case False
      show ?thesis
      proof (cases "map_of (getAdjacency ns ls True) m")
        case None
        then show ?thesis using x z False by simp
      next
        case (Some es)
        show ?thesis
        proof (cases "List.find (\<lambda>x. Neighbor.id' x = i) es")
          case None
          then show ?thesis using x z False Some by simp
        next
          case found: (Some nb)
          then have "nb \<in> set es" by (auto simp: find_Some_iff)
          then have "Neighbor.weight nb \<in> linkWeight True ` set ls"
            by (rule adjacency_weights [OF Some])
          then have "\<bar>Neighbor.weight nb\<bar> \<le> B" using w by auto
          then show ?thesis using x False Some found by (simp add: finBelow_def)
        qed
      qed
    qed
  qed
qed

lemma initial_clusters_inv:
  assumes "ns \<noteq> []"
    and "\<forall>m. length (vectors m) = length ns \<and> (\<forall>x \<in> set (vectors m). finBelow B x)"
  shows "hcInv config B (length ns) (mset (map GraphNode.id' ns))
           (map (\<lambda>n. \<lparr>members = [GraphNode.id' n], vec = vectors (GraphNode.id' n),
                       tree = DendrogramNode (GraphNode.id' n) None (Some (Fin 0)) (Some True)\<rparr>) ns)"
proof -
  let ?f = "\<lambda>n. \<lparr>members = [GraphNode.id' n], vec = vectors (GraphNode.id' n),
                       tree = DendrogramNode (GraphNode.id' n) None (Some (Fin 0)) (Some True)\<rparr>"
  have a: "sum_mset (image_mset (\<lambda>c. mset (leafNames (tree c))) (mset (map ?f xs)))
             = mset (map GraphNode.id' xs)" for xs
    by (induction xs) simp_all
  have b: "sum_mset (image_mset (\<lambda>c. internalCount (tree c)) (mset (map ?f xs))) = 0" for xs
    by (induction xs) simp_all
  show ?thesis
    unfolding hcInv_def using assms by (auto simp: a b simp del: mset_map)
qed

lemma single_cluster_shape:
  assumes "hcInv config B n M cs" "length cs = 1"
  shows "\<exists>c. cs = [c] \<and> mset (leafNames (tree c)) = M \<and> internalCount (tree c) + 1 = n
            \<and> binaryTree (tree c)"
proof -
  obtain c where c: "cs = [c]" using assms(2) by (cases cs) auto
  then show ?thesis using assms(1) by (simp add: hcInv_def)
qed

lemma hierarchical_tree_shape:
  assumes ne: "ns \<noteq> []"
    and noempty: "method_hc config = centroid \<and> 2 < length ns \<longrightarrow> [] \<notin> GraphNode.id' ` set ns"
    and B1: "1 \<le> B" and w: "\<forall>l \<in> set ls. \<bar>linkWeight True l\<bar> \<le> B"
    and lim: "4 * real (length ns) ^ 3 * B ^ 2 \<le> 2 ^ 1000"
  shows "mset (leafNames (calculateHierarchicalTree ns ls config)) = mset (map GraphNode.id' ns)
       \<and> internalCount (calculateHierarchicalTree ns ls config) + 1 = length ns
       \<and> binaryTree (calculateHierarchicalTree ns ls config)"
proof -
  define vectors where "vectors = vectorOf (getAdjacency ns ls True) (map GraphNode.id' ns)"
  define cs0 where "cs0 = map (\<lambda>n. \<lparr>members = [GraphNode.id' n], vec = vectors (GraphNode.id' n),
                       tree = DendrogramNode (GraphNode.id' n) None (Some (Fin 0)) (Some True)\<rparr>) ns"
  have B0: "0 \<le> B" using B1 by simp
  have vs: "\<forall>m. length (vectors m) = length ns \<and> (\<forall>x \<in> set (vectors m). finBelow B x)"
    unfolding vectors_def using vectorOf_fin [OF w B0, of ns "map GraphNode.id' ns"] by simp
  have ne': "method_hc config = centroid \<and> 2 < length ns \<longrightarrow> [] \<notin># mset (map GraphNode.id' ns)"
    using noempty by simp
  have "hcInv config B (length ns) (mset (map GraphNode.id' ns)) cs0"
    unfolding cs0_def by (rule initial_clusters_inv [OF ne vs])
  then have "hcInv config B (length ns) (mset (map GraphNode.id' ns)) (hcLoop vectors config cs0)
         \<and> length (hcLoop vectors config cs0) = 1"
    by (rule hcLoop_inv [OF vs B1 lim ne'])
  then obtain c where c: "hcLoop vectors config cs0 = [c]"
      "mset (leafNames (tree c)) = mset (map GraphNode.id' ns)"
      "internalCount (tree c) + 1 = length ns" "binaryTree (tree c)"
    using single_cluster_shape by blast
  have "calculateHierarchicalTree ns ls config = tree c"
    unfolding calculateHierarchicalTree_def Let_def vectors_def [symmetric] cs0_def [symmetric]
    by (simp add: c(1))
  then show ?thesis using c by simp
qed

lemma hierarchical_tree_empty:
  "calculateHierarchicalTree [] ls config = DendrogramNode [0x52, 0x6F, 0x6F, 0x74] (Some []) None None"
  unfolding calculateHierarchicalTree_def Let_def
  by (subst hcLoop.simps) simp

text \<open>
  Under the centroid linkage the merged vector is \<open>[]\<close> when the first member id is the
  empty string (\<open>newMembers[0] ? ... : []\<close>); every later distance to that cluster is
  \<open>NaN\<close>, no pair is selected, and the loop leaves through \<open>break\<close>.
\<close>

definition plainNode :: "jsstring \<Rightarrow> GraphNode" where
  "plainNode i = \<lparr>GraphNode.id' = i, group = [], metrics = None, clusters = None\<rparr>"

lemma centroid_empty_id_tree:
  "calculateHierarchicalTree [plainNode [], plainNode [0x61], plainNode [0x62]] []
       \<lparr>distanceType = euclidean, method_hc = centroid\<rparr>
   = DendrogramNode [0x62] None (Some (Fin 0)) (Some True)"
proof -
  let ?ns = "[plainNode [], plainNode [0x61], plainNode [0x62]]"
  define v where "v = vectorOf (getAdjacency ?ns [] True) (map GraphNode.id' ?ns)"
  let ?cfg = "\<lparr>distanceType = euclidean, method_hc = centroid\<rparr>"
  let ?c0 = "\<lparr>members = [[]], vec = [Fin 0, Fin 0, Fin 0],
              tree = DendrogramNode [] None (Some (Fin 0)) (Some True)\<rparr>"
  let ?c1 = "\<lparr>members = [[0x61]], vec = [Fin 0, Fin 0, Fin 0],
              tree = DendrogramNode [0x61] None (Some (Fin 0)) (Some True)\<rparr>"
  let ?c2 = "\<lparr>members = [[0x62]], vec = [Fin 0, Fin 0, Fin 0],
              tree = DendrogramNode [0x62] None (Some (Fin 0)) (Some True)\<rparr>"
  let ?m = "\<lparr>members = [[], [0x61]], vec = [],
             tree = DendrogramNode [] (Some [DendrogramNode [] None (Some (Fin 0)) (Some True),
                              DendrogramNode [0x61] None (Some (Fin 0)) (Some True)]) (Some (Fin 0)) None\<rparr>"
  have va: "v m = [Fin 0, Fin 0, Fin 0]" for m
    by (simp add: v_def vectorOf_def getAdjacency_def plainNode_def)
  have up: "[0..<3] = [0, Suc 0, Suc (Suc 0)]" "[Suc 0..<3] = [Suc 0, Suc (Suc 0)]"
      "[Suc (Suc 0)..<3] = [Suc (Suc 0)]" "[0..<2] = [0, Suc 0]" "[Suc 0..<2] = [Suc 0]"
    by (simp_all add: upt_rec)
  have d0: "calculateDistance [Fin 0, Fin 0, Fin 0] [Fin 0, Fin 0, Fin 0] euclidean = Fin 0"
    by (simp add: calculateDistance_def up nthJ_def jssub_def)
  have dn: "calculateDistance [Fin 0, Fin 0, Fin 0] [] euclidean = NaN"
    by (simp add: calculateDistance_def up nthJ_def jssub_def)
  have f1: "findClosest v ?cfg [?c0, ?c1, ?c2] = Some (Fin 0, 0, Suc 0)"
    by (simp add: findClosest_def indexPairs_def closer_def getClusterDist_def d0 up)
  have m1: "mergeClusters v [?c0, ?c1, ?c2] (Fin 0) 0 (Suc 0) = [?c2, ?m]"
    by (simp add: mergeClusters_def Let_def up)
  have f2: "findClosest v ?cfg [?c2, ?m] = None"
    by (simp add: findClosest_def indexPairs_def closer_def getClusterDist_def dn up)
  have l: "hcLoop v ?cfg [?c0, ?c1, ?c2] = [?c2, ?m]"
    by (subst hcLoop.simps, simp add: f1 m1, subst hcLoop.simps, simp add: f2)
  have init: "map (\<lambda>n. \<lparr>members = [GraphNode.id' n], vec = v (GraphNode.id' n),
                       tree = DendrogramNode (GraphNode.id' n) None (Some (Fin 0)) (Some True)\<rparr>) ?ns
              = [?c0, ?c1, ?c2]"
    by (simp add: va plainNode_def)
  show ?thesis
    unfolding calculateHierarchicalTree_def Let_def v_def [symmetric]
    by (simp only: init l) simp
qed

text \<open>
  Two nodes joined by a link of weight \<open>2\<^sup>1\<^sup>0\<^sup>2\<^sup>3\<close>, a finite double: the rows are
  \<open>[0, 2\<^sup>1\<^sup>0\<^sup>2\<^sup>3]\<close> and \<open>[2\<^sup>1\<^sup>0\<^sup>2\<^sup>3, 0]\<close>, their manhattan distance is
  \<open>2\<^sup>1\<^sup>0\<^sup>2\<^sup>3 + 2\<^sup>1\<^sup>0\<^sup>2\<^sup>3 = Infinity\<close>, \<open>d < minD\<close> is false for it, no pair is selected
  and the loop leaves through \<open>break\<close> with both clusters unmerged.
\<close>

definition hugeWeight :: real where
  "hugeWeight = 2 ^ 1023"

definition hugeLink :: GraphLink where
  "hugeLink = \<lparr>GraphLink.source = EndId [0x61], target = EndId [0x62], type = [],
               weight = Some hugeWeight, association = None\<rparr>"

lemma hugeWeight_facts:
  "hugeWeight \<noteq> 0" "\<bar>hugeWeight\<bar> = hugeWeight"
  "toJs hugeWeight = Fin hugeWeight" "toJs (- hugeWeight) = Fin (- hugeWeight)"
  "toJs (hugeWeight + hugeWeight) = PInf" "toJs (2 * hugeWeight) = PInf"
  by (simp_all add: hugeWeight_def toJs_def dblLimit_def)

lemma overflow_tree:
  "calculateHierarchicalTree [plainNode [0x61], plainNode [0x62]] [hugeLink]
       \<lparr>distanceType = manhattan, method_hc = complete\<rparr>
   = DendrogramNode [0x61] None (Some (Fin 0)) (Some True)"
proof -
  let ?ns = "[plainNode [0x61], plainNode [0x62]]"
  define v where "v = vectorOf (getAdjacency ?ns [hugeLink] True) (map GraphNode.id' ?ns)"
  let ?cfg = "\<lparr>distanceType = manhattan, method_hc = complete\<rparr>"
  let ?c0 = "\<lparr>members = [[0x61]], vec = [Fin 0, Fin hugeWeight],
              tree = DendrogramNode [0x61] None (Some (Fin 0)) (Some True)\<rparr>"
  let ?c1 = "\<lparr>members = [[0x62]], vec = [Fin hugeWeight, Fin 0],
              tree = DendrogramNode [0x62] None (Some (Fin 0)) (Some True)\<rparr>"
  have va: "v [0x61] = [Fin 0, Fin hugeWeight]" "v [0x62] = [Fin hugeWeight, Fin 0]"
    by (simp_all add: v_def vectorOf_def getAdjacency_def plainNode_def hugeLink_def addLink_def
        adjPush_def linkWeight_def Let_def hugeWeight_facts(1))
  have up: "[0..<2] = [0, Suc 0]" "[Suc 0..<2] = [Suc 0]"
    by (simp_all add: upt_rec)
  have d: "calculateDistance [Fin 0, Fin hugeWeight] [Fin hugeWeight, Fin 0] manhattan = PInf"
    by (simp add: calculateDistance_def up nthJ_def jssub_def hugeWeight_facts)
  have f: "findClosest v ?cfg [?c0, ?c1] = None"
    by (simp add: findClosest_def indexPairs_def closer_def getClusterDist_def va d up)
  have l: "hcLoop v ?cfg [?c0, ?c1] = [?c0, ?c1]"
    by (subst hcLoop.simps) (simp add: f)
  have init: "map (\<lambda>n. \<lparr>members = [GraphNode.id' n], vec = v (GraphNode.id' n),
                       tree = DendrogramNode (GraphNode.id' n) None (Some (Fin 0)) (Some True)\<rparr>) ?ns
              = [?c0, ?c1]"
    by (simp add: va plainNode_def)
  show ?thesis
    unfolding calculateHierarchicalTree_def Let_def v_def [symmetric]
    by (simp only: init l) simp
qed

section \<open>Claims about the hierarchical clusterer\<close>

text \<open>
  C5 (as stated, refuted). The claim says that the single merge of the scenario is recorded
  at distance 0. The feature vector of a node is its adjacency row with 0 on the diagonal:
  the two symptoms have the rows \<open>[0, 1]\<close> and \<open>[1, 0]\<close>, and the recorded distance is
  not 0.
\<close>

theorem scenario_merge_distance_counterexample:
  "distance (calculateHierarchicalTree (nodes scenarioGraph) (links scenarioGraph)
       \<lparr>distanceType = euclidean, method_hc = complete\<rparr>) \<noteq> Some (Fin 0)
   \<and> vectorOf (getAdjacency (nodes scenarioGraph) (links scenarioGraph) True)
        (map GraphNode.id' (nodes scenarioGraph)) xiongmen
     \<noteq> vectorOf (getAdjacency (nodes scenarioGraph) (links scenarioGraph) True)
        (map GraphNode.id' (nodes scenarioGraph)) xiongtong"
  by (simp add: scenario_tree scenario_vectors)

text \<open>
  C5 (amended). In the scenario, co-occurrence construction followed by hierarchical
  clustering with euclidean distance and complete linkage produces exactly one merge
  (two leaves, one internal node), recorded at distance \<open>sqrt 2\<close>, and the root has the two
  symptom leaves as its children.
\<close>

theorem scenario_single_merge:
  "internalCount (calculateHierarchicalTree (nodes scenarioGraph) (links scenarioGraph)
       \<lparr>distanceType = euclidean, method_hc = complete\<rparr>) = 1
   \<and> distance (calculateHierarchicalTree (nodes scenarioGraph) (links scenarioGraph)
       \<lparr>distanceType = euclidean, method_hc = complete\<rparr>) = Some (Fin (sqrt 2))
   \<and> children (calculateHierarchicalTree (nodes scenarioGraph) (links scenarioGraph)
       \<lparr>distanceType = euclidean, method_hc = complete\<rparr>)
     = Some [DendrogramNode xiongmen None (Some (Fin 0)) (Some True),
             DendrogramNode xiongtong None (Some (Fin 0)) (Some True)]"
  by (simp add: scenario_tree)

text \<open>
  C6 (as stated, refuted). For no input node the result is the placeholder
  \<open>{name: "Root", children: []}\<close>: one node that is not a leaf and has no child, where the
  claim asks for \<open>n - 1\<close> internal nodes with two children each. With the centroid
  linkage and the three node ids \<open>""\<close>, \<open>"a"\<close>, \<open>"b"\<close> the result is the single leaf
  \<open>"b"\<close>. And with the two nodes \<open>"a"\<close>, \<open>"b"\<close> joined by a link of weight
  \<open>2\<^sup>1\<^sup>0\<^sup>2\<^sup>3\<close>, under the manhattan distance and the complete linkage, the distance of the
  only pair is \<open>Infinity\<close> and the result is the single leaf \<open>"a"\<close>.
\<close>

theorem dendrogram_shape_counterexample:
  "internalCount (calculateHierarchicalTree [] [] \<lparr>distanceType = euclidean, method_hc = complete\<rparr>) = 1
   \<and> \<not> binaryTree (calculateHierarchicalTree [] [] \<lparr>distanceType = euclidean, method_hc = complete\<rparr>)
   \<and> leafNames (calculateHierarchicalTree [plainNode [], plainNode [0x61], plainNode [0x62]] []
        \<lparr>distanceType = euclidean, method_hc = centroid\<rparr>) = [[0x62]]
   \<and> leafNames (calculateHierarchicalTree [plainNode [0x61], plainNode [0x62]] [hugeLink]
        \<lparr>distanceType = manhattan, method_hc = complete\<rparr>) = [[0x61]]"
  by (simp add: hierarchical_tree_empty centroid_empty_id_tree overflow_tree)

text \<open>
  C6 (amended). For no input node the result is the placeholder node named \<open>Root\<close> with an
  empty list of children. For \<open>n \<ge> 1\<close> input nodes the dendrogram has exactly \<open>n\<close> leaves
  and \<open>n - 1\<close> internal nodes, every internal node has exactly two children, and the leaf
  names are the input node ids, each as often as it occurs among the input nodes, under two
  conditions: with the centroid linkage and more than two nodes no node id is the empty
  string; and the link weights \<open>l.weight || 1\<close> have a bound \<open>B \<ge> 1\<close> on their absolute
  values with \<open>4 n\<^sup>3 B\<^sup>2 \<le> 2\<^sup>1\<^sup>0\<^sup>0\<^sup>0\<close>, which keeps every sum, square and mean of the
  computation inside the range of the doubles.
\<close>

theorem dendrogram_shape:
  "calculateHierarchicalTree [] ls config
     = DendrogramNode [0x52, 0x6F, 0x6F, 0x74] (Some []) None None
   \<and> (ns \<noteq> []
      \<and> (method_hc config = centroid \<and> 2 < length ns \<longrightarrow> [] \<notin> GraphNode.id' ` set ns)
      \<and> 1 \<le> B \<and> (\<forall>l \<in> set ls. \<bar>linkWeight True l\<bar> \<le> B)
      \<and> 4 * real (length ns) ^ 3 * B ^ 2 \<le> 2 ^ 1000 \<longrightarrow>
        mset (leafNames (calculateHierarchicalTree ns ls config)) = mset (map GraphNode.id' ns)
      \<and> length (leafNames (calculateHierarchicalTree ns ls config)) = length ns
      \<and> internalCount (calculateHierarchicalTree ns ls config) + 1 = length ns
      \<and> binaryTree (calculateHierarchicalTree ns ls config))"
proof (intro conjI impI)
  show "calculateHierarchicalTree [] ls config
     = DendrogramNode [0x52, 0x6F, 0x6F, 0x74] (Some []) None None"
    by (rule hierarchical_tree_empty)
next
  assume a: "ns \<noteq> []
      \<and> (method_hc config = centroid \<and> 2 < length ns \<longrightarrow> [] \<notin> GraphNode.id' ` set ns)
      \<and> 1 \<le> B \<and> (\<forall>l \<in> set ls. \<bar>linkWeight True l\<bar> \<le> B)
      \<and> 4 * real (length ns) ^ 3 * B ^ 2 \<le> 2 ^ 1000"
  have s: "mset (leafNames (calculateHierarchicalTree ns ls config)) = mset (map GraphNode.id' ns)
       \<and> internalCount (calculateHierarchicalTree ns ls config) + 1 = length ns
       \<and> binaryTree (calculateHierarchicalTree ns ls config)"
    by (rule hierarchical_tree_shape [of ns config B ls]) (use a in blast)+
  from s show "mset (leafNames (calculateHierarchicalTree ns ls config)) = mset (map GraphNode.id' ns)"
    by blast
  then show "length (leafNames (calculateHierarchicalTree ns ls config)) = length ns"
    by (metis length_map size_mset)
  from s show "internalCount (calculateHierarchicalTree ns ls config) + 1 = length ns" by blast
  from s show "binaryTree (calculateHierarchicalTree ns ls config)" by blast
qed

definition threeLinks :: "GraphLink list" where
  "threeLinks =
     [\<lparr>GraphLink.source = EndId [0x61], target = EndId [0x62], type = [],
       weight = Some 2, association = None\<rparr>,
      \<lparr>GraphLink.source = EndId [0x62], target = EndId [0x63], type = [],
       weight = None, association = None\<rparr>]"

theorem dendrogram_shape_witness:
  "[plainNode [0x61], plainNode [0x62], plainNode [0x63]] \<noteq> []
   \<and> [] \<notin> GraphNode.id' ` set [plainNode [0x61], plainNode [0x62], plainNode [0x63]]
   \<and> (1::real) \<le> 2 \<and> length threeLinks = 2
   \<and> \<bar>linkWeight True (threeLinks ! 0)\<bar> \<le> 2 \<and> \<bar>linkWeight True (threeLinks ! 1)\<bar> \<le> 2
   \<and> 4 * real (length [plainNode [0x61], plainNode [0x62], plainNode [0x63]]) ^ 3 * 2 ^ 2
       \<le> (2::real) ^ 1000
   \<and> mset (leafNames (calculateHierarchicalTree [plainNode [0x61], plainNode [0x62], plainNode [0x63]]
             threeLinks \<lparr>distanceType = euclidean, method_hc = centroid\<rparr>))
       = {#[0x61], [0x62], [0x63]#}
   \<and> internalCount (calculateHierarchicalTree [plainNode [0x61], plainNode [0x62], plainNode [0x63]]
             threeLinks \<lparr>distanceType = euclidean, method_hc = centroid\<rparr>) + 1 = 3
   \<and> binaryTree (calculateHierarchicalTree [plainNode [0x61], plainNode [0x62], plainNode [0x63]]
             threeLinks \<lparr>distanceType = euclidean, method_hc = centroid\<rparr>)"
proof -
  let ?ns = "[plainNode [0x61], plainNode [0x62], plainNode [0x63]]"
  let ?cfg = "\<lparr>distanceType = euclidean, method_hc = centroid\<rparr>"
  have h: "?ns \<noteq> []" "[] \<notin> GraphNode.id' ` set ?ns" "(1::real) \<le> 2"
      "\<forall>l \<in> set threeLinks. \<bar>linkWeight True l\<bar> \<le> 2"
      "4 * real (length ?ns) ^ 3 * 2 ^ 2 \<le> (2::real) ^ 1000"
    by (simp_all add: plainNode_def threeLinks_def linkWeight_def)
  have "mset (leafNames (calculateHierarchicalTree ?ns threeLinks ?cfg)) = mset (map GraphNode.id' ?ns)
      \<and> length (leafNames (calculateHierarchicalTree ?ns threeLinks ?cfg)) = length ?ns
      \<and> internalCount (calculateHierarchicalTree ?ns threeLinks ?cfg) + 1 = length ?ns
      \<and> binaryTree (calculateHierarchicalTree ?ns threeLinks ?cfg)"
    using dendrogram_shape [of threeLinks ?cfg ?ns 2] h by blast
  then have "mset (leafNames (calculateHierarchicalTree ?ns threeLinks ?cfg)) = {#[0x61], [0x62], [0x63]#}
      \<and> internalCount (calculateHierarchicalTree ?ns threeLinks ?cfg) + 1 = 3
      \<and> binaryTree (calculateHierarchicalTree ?ns threeLinks ?cfg)"
    by (simp add: plainNode_def)
  moreover have "length threeLinks = 2" "\<bar>linkWeight True (threeLinks ! 0)\<bar> \<le> 2"
      "\<bar>linkWeight True (threeLinks ! 1)\<bar> \<le> 2"
    by (simp_all add: threeLinks_def linkWeight_def)
  ultimately show ?thesis using h(1,2,3,5) by blast
qed

section \<open>Vector k-means clusterer: calculateVectorKMeans\<close>

text \<open>
  \<open>k\<close> is a natural number. \<open>Array(k)\<close> raises a RangeError for every other number and
  for every \<open>k \<ge> 2\<^sup>3\<^sup>2\<close>, the largest array length being \<open>2\<^sup>3\<^sup>2 - 1\<close>. The loop
  runs ten times without a convergence test. The vectors have the entries 0 and 1 and the
  centroids are means of vectors, so that no sum of the distance function leaves the range
  of the doubles; the numbers are exact reals here, and two distances that are equal as
  reals can differ by a rounding error in the code, which moves a vector to another
  centroid of the same exact distance.
\<close>

datatype error = TypeError | RangeError

text \<open>
  \<open>result[key] = v\<close> on the plain object \<open>result\<close>. The record is an association list,
  only ever looked up by key. For the key \<open>__proto__\<close> the assignment calls the inherited
  setter, which ignores a number: the object gets no property of that name.
\<close>

definition recordSet :: "jsstring \<Rightarrow> 'a \<Rightarrow> (jsstring \<times> 'a) list \<Rightarrow> (jsstring \<times> 'a) list" where
  "recordSet key v r = (if key = protoKey then r else AList.update key v r)"

record KMeansResult =
  result :: "(jsstring \<times> nat) list"
  nodes :: "GraphNode list"

text \<open>\<open>entities.some(e => e.name === n && e.type === t)\<close> is \<open>hasEntity\<close>;
  \<open>entities.find(e => e.name === n)?.type === t\<close> looks at the first entity of that name.\<close>

definition firstTypeIs :: "RawEntity list \<Rightarrow> jsstring \<Rightarrow> jsstring \<Rightarrow> bool" where
  "firstTypeIs es n t =
     (case List.find (\<lambda>e. RawEntity.name e = n) es of
        None \<Rightarrow> False
      | Some e \<Rightarrow> RawEntity.type e = t)"

definition connect :: "RawEntity list \<Rightarrow> jsstring
    \<Rightarrow> jsstring list \<times> (jsstring \<times> jsstring list) list \<Rightarrow> RawRelation
    \<Rightarrow> jsstring list \<times> (jsstring \<times> jsstring list) list" where
  "connect es targetType st r =
     (let (target, feature) =
            (if firstTypeIs es (RawRelation.source r) targetType
             then (RawRelation.source r, RawRelation.target r)
             else (RawRelation.target r, RawRelation.source r));
          contextFeatures = setAdd feature (fst st);
          nodeConnections = (if map_of (snd st) target = None
                             then AList.update target [] (snd st) else snd st)
      in (contextFeatures,
          AList.update target
            (setAdd feature (case map_of nodeConnections target of Some s \<Rightarrow> s | None \<Rightarrow> []))
            nodeConnections))"

text \<open>The feature list (\<open>Array.from(contextFeatures).sort()\<close>) and the connections.\<close>

definition kmFeatures :: "RawEntity list \<Rightarrow> RawRelation list \<Rightarrow> jsstring
    \<Rightarrow> jsstring list \<times> (jsstring \<times> jsstring list) list" where
  "kmFeatures es rs targetType =
     (let relevantRelations = filter (\<lambda>r. hasEntity es (RawRelation.source r) targetType
                                         \<or> hasEntity es (RawRelation.target r) targetType) rs;
          st = foldl (connect es targetType) ([], []) relevantRelations
      in (sort (fst st), snd st))"

definition kmVectors :: "RawEntity list \<Rightarrow> RawRelation list \<Rightarrow> jsstring \<Rightarrow> real list list" where
  "kmVectors es rs targetType =
     (let targetNodes = filter (\<lambda>e. RawEntity.type e = targetType) es;
          featureList = fst (kmFeatures es rs targetType);
          nodeConnections = snd (kmFeatures es rs targetType)
      in map (\<lambda>n. let conns = (case map_of nodeConnections (RawEntity.name n) of
                                  Some s \<Rightarrow> s | None \<Rightarrow> [])
                   in map (\<lambda>f. if f \<in> set conns then 1 else 0) featureList) targetNodes)"

text \<open>
  \<open>Math.sqrt(a.reduce((sum, val, i) => sum + Math.pow(val - b[i], 2), 0))\<close>. Every vector
  and every centroid has the length of the feature list, so \<open>b[i]\<close> is always defined.
\<close>

definition distance_km :: "real list \<Rightarrow> real list \<Rightarrow> real" where
  "distance_km a b = sqrt (foldl (\<lambda>sum i. sum + (a ! i - b ! i) ^ 2) 0 [0..<length a])"

text \<open>The inner \<open>centroids.forEach\<close>: \<open>minDist = Infinity\<close> is \<open>None\<close>.\<close>

definition nearer :: "real list \<Rightarrow> real option \<times> nat \<Rightarrow> real list \<times> nat \<Rightarrow> real option \<times> nat" where
  "nearer v st cci =
     (let d = distance_km v (fst cci)
      in if (case fst st of None \<Rightarrow> True | Some minDist \<Rightarrow> d < minDist)
         then (Some d, snd cci) else st)"

definition nearest :: "real list list \<Rightarrow> real list \<Rightarrow> nat" where
  "nearest centroids v = snd (foldl (nearer v) (None, 0) (zip centroids [0..<length centroids]))"

text \<open>
  \<open>counts[c]++; v.forEach((val, dim) => newCentroids[c][dim] += val)\<close>. For \<open>c\<close> outside
  \<open>newCentroids\<close> the row is \<open>undefined\<close> and the first \<open>+=\<close> raises a TypeError.
\<close>

definition vadd :: "real list \<Rightarrow> real list \<Rightarrow> real list" where
  "vadd row v = map (\<lambda>(x, val). x + val) (zip row v)"

definition accumulate :: "error + (real list list \<times> nat list) \<Rightarrow> real list \<times> nat
    \<Rightarrow> error + (real list list \<times> nat list)" where
  "accumulate acc vc =
     (case acc of
        Inl e \<Rightarrow> Inl e
      | Inr (newCentroids, counts) \<Rightarrow>
          (let v = fst vc; c = snd vc
           in if c < length newCentroids
              then Inr (newCentroids[c := vadd (newCentroids ! c) v], counts[c := counts ! c + 1])
              else if v = [] then Inr (newCentroids, counts)
              else Inl TypeError))"

text \<open>
  The update step for a length \<open>k\<close> that \<open>Array(k)\<close> accepts; \<open>calculateVectorKMeans\<close>
  below raises the RangeError of the other lengths before its loop.
\<close>

definition updateCentroids :: "nat \<Rightarrow> nat \<Rightarrow> real list list \<Rightarrow> nat list \<Rightarrow> error + real list list" where
  "updateCentroids k F vectors assignments =
     (case foldl accumulate (Inr (replicate k (replicate F 0), replicate k 0)) (zip vectors assignments) of
        Inl e \<Rightarrow> Inl e
      | Inr (newCentroids, counts) \<Rightarrow>
          Inr (map (\<lambda>(c, i). if counts ! i > 0 then map (\<lambda>x. x / real (counts ! i)) c else c)
                 (zip newCentroids [0..<length newCentroids])))"

definition kmIter :: "nat \<Rightarrow> nat \<Rightarrow> real list list \<Rightarrow> real list list
    \<Rightarrow> error + (real list list \<times> nat list)" where
  "kmIter k F vectors centroids =
     (let assignments = map (nearest centroids) vectors
      in case updateCentroids k F vectors assignments of
           Inl e \<Rightarrow> Inl e
         | Inr centroids' \<Rightarrow> Inr (centroids', assignments))"

fun kmLoop :: "nat \<Rightarrow> nat \<Rightarrow> nat \<Rightarrow> real list list \<Rightarrow> real list list \<times> nat list
    \<Rightarrow> error + (real list list \<times> nat list)" where
  "kmLoop 0 k F vectors st = Inr st"
| "kmLoop (Suc iters) k F vectors st =
     (case kmIter k F vectors (fst st) of
        Inl e \<Rightarrow> Inl e
      | Inr st' \<Rightarrow> kmLoop iters k F vectors st')"

text \<open>
  \<open>k\<close> does not change in the loop, the loop body is entered at least once, and the
  assignment step that precedes the first \<open>Array(k)\<close> neither raises nor has an effect that
  outlives the call: the RangeError of \<open>Array(k)\<close> is raised here, before the loop. In
  \<open>clusters: { kmeans: result[n.name] }\<close> the value is the cluster index, and \<open>None\<close> for
  the name \<open>__proto__\<close>, where \<open>result[n.name]\<close> is the prototype object and not a number.
\<close>

definition calculateVectorKMeans ::
    "RawEntity list \<Rightarrow> RawRelation list \<Rightarrow> jsstring \<Rightarrow> nat \<Rightarrow> error + KMeansResult" where
  "calculateVectorKMeans es rs targetType k =
     (let targetNodes = filter (\<lambda>e. RawEntity.type e = targetType) es
      in if length targetNodes = 0 then Inr \<lparr>result = [], nodes = []\<rparr>
         else if 2 ^ 32 \<le> k then Inl RangeError
         else
          (let vectors = kmVectors es rs targetType;
               F = length (fst (kmFeatures es rs targetType));
               centroids = (if length vectors < k then vectors else take k vectors);
               assignments = replicate (length vectors) 0
           in case kmLoop 10 k F vectors (centroids, assignments) of
                Inl e \<Rightarrow> Inl e
              | Inr (centroids', assignments') \<Rightarrow>
                 (let res = foldl (\<lambda>res (n, a). recordSet (RawEntity.name n) a res) []
                              (zip targetNodes assignments')
                  in Inr \<lparr>result = res,
                          nodes = map (\<lambda>n. \<lparr>GraphNode.id' = RawEntity.name n, group = RawEntity.type n,
                                      metrics = None,
                                      clusters = Some \<lparr>kmeans = map_of res (RawEntity.name n),
                                                       hierarchical = None\<rparr>\<rparr>) targetNodes\<rparr>)))"


subsection \<open>Distance and nearest centroid\<close>

lemma foldl_add_sum_list:
  "foldl (\<lambda>sum x. sum + f x) a xs = a + sum_list (map f xs)" for a :: real
  by (induction xs arbitrary: a) simp_all

lemma distance_km_nonneg: "0 \<le> distance_km a b"
proof -
  have "0 \<le> (\<Sum>i\<leftarrow>[0..<length a]. (a ! i - b ! i)\<^sup>2)"
    by (rule sum_list_nonneg) auto
  then show ?thesis by (simp add: distance_km_def foldl_add_sum_list)
qed

lemma distance_km_zero_iff:
  assumes "length a = length b"
  shows "distance_km a b = 0 \<longleftrightarrow> a = b"
proof -
  have "distance_km a b = 0 \<longleftrightarrow> (\<Sum>i\<leftarrow>[0..<length a]. (a ! i - b ! i)\<^sup>2) = 0"
    by (simp add: distance_km_def foldl_add_sum_list)
  also have "\<dots> \<longleftrightarrow> (\<forall>i < length a. a ! i = b ! i)"
    by (subst sum_list_nonneg_eq_0_iff) auto
  also have "\<dots> \<longleftrightarrow> a = b"
    using assms by (auto simp: list_eq_iff_nth_eq)
  finally show ?thesis .
qed

definition scanned :: "real list \<Rightarrow> real list list \<Rightarrow> real option \<times> nat \<Rightarrow> bool" where
  "scanned v cs st \<longleftrightarrow>
     (if cs = [] then st = (None, 0)
      else snd st < length cs \<and> fst st = Some (distance_km v (cs ! snd st))
         \<and> (\<forall>j < length cs. distance_km v (cs ! snd st) \<le> distance_km v (cs ! j))
         \<and> (\<forall>j < snd st. distance_km v (cs ! snd st) < distance_km v (cs ! j)))"

lemma scanned_foldl:
  "scanned v cs (foldl (nearer v) (None, 0) (zip cs [0..<length cs]))"
proof (induction cs rule: rev_induct)
  case Nil
  show ?case by (simp add: scanned_def)
next
  case (snoc c cs)
  let ?st = "foldl (nearer v) (None, 0) (zip cs [0..<length cs])"
  have z: "zip (cs @ [c]) [0..<length (cs @ [c])] = zip cs [0..<length cs] @ [(c, length cs)]"
    by simp
  have step: "foldl (nearer v) (None, 0) (zip (cs @ [c]) [0..<length (cs @ [c])])
            = nearer v ?st (c, length cs)"
    unfolding z by simp
  show ?case
  proof (cases "cs = []")
    case True
    then show ?thesis by (simp add: scanned_def nearer_def)
  next
    case False
    with snoc have b: "snd ?st < length cs" and m: "fst ?st = Some (distance_km v (cs ! snd ?st))"
      and le: "\<forall>j < length cs. distance_km v (cs ! snd ?st) \<le> distance_km v (cs ! j)"
      and lt: "\<forall>j < snd ?st. distance_km v (cs ! snd ?st) < distance_km v (cs ! j)"
      by (simp_all add: scanned_def)
    show ?thesis
    proof (cases "distance_km v c < distance_km v (cs ! snd ?st)")
      case True
      then have n: "nearer v ?st (c, length cs) = (Some (distance_km v c), length cs)"
        using m by (simp add: nearer_def)
      show ?thesis
        unfolding step n scanned_def using True le
        by (auto simp: nth_append less_Suc_eq intro: less_le_trans)
    next
      case False
      then have n: "nearer v ?st (c, length cs) = ?st"
        using m by (simp add: nearer_def)
      show ?thesis
        unfolding step n scanned_def using False b m le lt
        by (auto simp: nth_append less_Suc_eq)
    qed
  qed
qed

lemma nearest_less: "cs \<noteq> [] \<Longrightarrow> nearest cs v < length cs"
  using scanned_foldl [of v cs] by (simp add: nearest_def scanned_def)

lemma nearest_exact:
  assumes j: "j < length cs" "cs ! j = v" and len: "\<forall>c \<in> set cs. length c = length v"
  shows "cs ! nearest cs v = v \<and> nearest cs v \<le> j"
proof -
  have ne: "cs \<noteq> []" using j by auto
  let ?b = "nearest cs v"
  have b: "?b < length cs" by (rule nearest_less [OF ne])
  have all: "\<forall>i < length cs. distance_km v (cs ! ?b) \<le> distance_km v (cs ! i)"
    and lt: "\<forall>i < ?b. distance_km v (cs ! ?b) < distance_km v (cs ! i)"
    using scanned_foldl [of v cs] ne by (simp_all add: nearest_def scanned_def)
  have le: "distance_km v (cs ! ?b) \<le> distance_km v (cs ! j)"
    using all j(1) by blast
  have zj: "distance_km v (cs ! j) = 0" using j distance_km_zero_iff [of v v] by simp
  then have "distance_km v (cs ! ?b) = 0"
    using le distance_km_nonneg [of v "cs ! ?b"] by simp
  moreover have "length v = length (cs ! ?b)" using len b by (metis nth_mem)
  ultimately have "cs ! ?b = v" using distance_km_zero_iff [of v "cs ! ?b"] by simp
  moreover have "?b \<le> j"
  proof (rule ccontr)
    assume "\<not> ?b \<le> j"
    then have "distance_km v (cs ! ?b) < distance_km v (cs ! j)" using lt by simp
    then show False using zj distance_km_nonneg [of v "cs ! ?b"] by simp
  qed
  ultimately show ?thesis by simp
qed


subsection \<open>The centroid update\<close>

definition membersOf :: "(real list \<times> nat) list \<Rightarrow> nat \<Rightarrow> real list list" where
  "membersOf vcs i = map fst (filter (\<lambda>vc. snd vc = i) vcs)"

definition meanVec :: "nat \<Rightarrow> real list list \<Rightarrow> real list" where
  "meanVec F vs = map (\<lambda>dim. sum_list (map (\<lambda>v. v ! dim) vs) / real (length vs)) [0..<F]"

lemma foldl_accumulate:
  "length nc = k \<Longrightarrow> length cnt = k \<Longrightarrow> \<forall>vc \<in> set vcs. snd vc < k \<Longrightarrow>
   \<exists>nc' cnt'. foldl accumulate (Inr (nc, cnt)) vcs = Inr (nc', cnt')
      \<and> length nc' = k \<and> length cnt' = k
      \<and> (\<forall>i < k. nc' ! i = foldl vadd (nc ! i) (membersOf vcs i)
                \<and> cnt' ! i = cnt ! i + length (membersOf vcs i))"
proof (induction vcs arbitrary: nc cnt)
  case Nil
  then show ?case by (simp add: membersOf_def)
next
  case (Cons vc vcs)
  obtain v c where vc: "vc = (v, c)" by (cases vc)
  have c: "c < k" using Cons.prems(3) vc by simp
  let ?nc = "nc[c := vadd (nc ! c) v]"
  let ?cnt = "cnt[c := cnt ! c + 1]"
  have step: "accumulate (Inr (nc, cnt)) vc = Inr (?nc, ?cnt)"
    using c Cons.prems(1) by (simp add: accumulate_def vc Let_def)
  have "\<exists>nc' cnt'. foldl accumulate (Inr (?nc, ?cnt)) vcs = Inr (nc', cnt')
      \<and> length nc' = k \<and> length cnt' = k
      \<and> (\<forall>i < k. nc' ! i = foldl vadd (?nc ! i) (membersOf vcs i)
                \<and> cnt' ! i = ?cnt ! i + length (membersOf vcs i))"
    using Cons.prems by (intro Cons.IH) simp_all
  then obtain nc' cnt' where r: "foldl accumulate (Inr (?nc, ?cnt)) vcs = Inr (nc', cnt')"
      "length nc' = k" "length cnt' = k"
      "\<forall>i < k. nc' ! i = foldl vadd (?nc ! i) (membersOf vcs i)
                \<and> cnt' ! i = ?cnt ! i + length (membersOf vcs i)"
    by blast
  have "\<forall>i < k. nc' ! i = foldl vadd (nc ! i) (membersOf (vc # vcs) i)
                \<and> cnt' ! i = cnt ! i + length (membersOf (vc # vcs) i)"
  proof (intro allI impI)
    fix i assume i: "i < k"
    show "nc' ! i = foldl vadd (nc ! i) (membersOf (vc # vcs) i)
                \<and> cnt' ! i = cnt ! i + length (membersOf (vc # vcs) i)"
      using r(4) i c Cons.prems(1,2) by (cases "i = c") (simp_all add: membersOf_def vc)
  qed
  then show ?case using r(1,2,3) step by simp
qed

lemma vadd_nth:
  "length row = F \<Longrightarrow> length v = F \<Longrightarrow> vadd row v = map (\<lambda>dim. row ! dim + v ! dim) [0..<F]"
  by (rule nth_equalityI) (simp_all add: vadd_def)

lemma foldl_vadd:
  "length row = F \<Longrightarrow> \<forall>v \<in> set vs. length v = F \<Longrightarrow>
   foldl vadd row vs = map (\<lambda>dim. row ! dim + sum_list (map (\<lambda>v. v ! dim) vs)) [0..<F]"
proof (induction vs arbitrary: row)
  case Nil
  then have "map ((!) row) [0..<F] = row" using map_nth [of row] by simp
  then show ?case by simp
next
  case (Cons v vs)
  have "foldl vadd (vadd row v) vs
      = map (\<lambda>dim. vadd row v ! dim + sum_list (map (\<lambda>v. v ! dim) vs)) [0..<F]"
    using Cons.prems by (intro Cons.IH) (simp_all add: vadd_def)
  also have "\<dots> = map (\<lambda>dim. row ! dim + sum_list (map (\<lambda>v. v ! dim) (v # vs))) [0..<F]"
    using Cons.prems by (intro map_cong) (simp_all add: vadd_nth [of row F v])
  finally show ?case by simp
qed

lemma membersOf_zip_map:
  "membersOf (zip vs (map f vs)) i = filter (\<lambda>v. f v = i) vs"
  by (induction vs) (simp_all add: membersOf_def)

lemma updateCentroids_char:
  assumes len: "\<forall>v \<in> set vectors. length v = F" and a: "\<forall>v \<in> set vectors. f v < k"
  shows "\<exists>cs. updateCentroids k F vectors (map f vectors) = Inr cs \<and> length cs = k
           \<and> (\<forall>i < k. cs ! i = (if filter (\<lambda>v. f v = i) vectors = [] then replicate F 0
                                 else meanVec F (filter (\<lambda>v. f v = i) vectors)))"
proof -
  let ?vcs = "zip vectors (map f vectors)"
  have "\<forall>vc \<in> set ?vcs. snd vc < k" using a by (auto simp: set_zip)
  then obtain nc cnt where r: "foldl accumulate (Inr (replicate k (replicate F 0), replicate k 0)) ?vcs
        = Inr (nc, cnt)" "length nc = k" "length cnt = k"
      "\<forall>i < k. nc ! i = foldl vadd (replicate k (replicate F 0) ! i) (membersOf ?vcs i)
                \<and> cnt ! i = replicate k 0 ! i + length (membersOf ?vcs i)"
    using foldl_accumulate [of "replicate k (replicate F 0)" k "replicate k 0" ?vcs] by auto
  let ?cs = "map (\<lambda>(c, i). if cnt ! i > 0 then map (\<lambda>x. x / real (cnt ! i)) c else c)
                 (zip nc [0..<length nc])"
  have u: "updateCentroids k F vectors (map f vectors) = Inr ?cs"
    by (simp add: updateCentroids_def r(1))
  have "\<forall>i < k. ?cs ! i = (if filter (\<lambda>v. f v = i) vectors = [] then replicate F 0
                                 else meanVec F (filter (\<lambda>v. f v = i) vectors))"
  proof (intro allI impI)
    fix i assume i: "i < k"
    let ?ms = "filter (\<lambda>v. f v = i) vectors"
    have ms: "membersOf ?vcs i = ?ms" by (rule membersOf_zip_map)
    have lms: "\<forall>v \<in> set ?ms. length v = F" using len by simp
    have cnt: "cnt ! i = length ?ms" using r(4) i ms by simp
    have "nc ! i = foldl vadd (replicate F 0) ?ms" using r(4) i ms by simp
    also have "\<dots> = map (\<lambda>dim. replicate F 0 ! dim + sum_list (map (\<lambda>v. v ! dim) ?ms)) [0..<F]"
      using lms by (intro foldl_vadd) simp_all
    also have "\<dots> = map (\<lambda>dim. sum_list (map (\<lambda>v. v ! dim) ?ms)) [0..<F]"
      by (intro map_cong) simp_all
    finally have nc: "nc ! i = map (\<lambda>dim. sum_list (map (\<lambda>v. v ! dim) ?ms)) [0..<F]" .
    have "?cs ! i = (if cnt ! i > 0 then map (\<lambda>x. x / real (cnt ! i)) (nc ! i) else nc ! i)"
      using i r(2) by simp
    also have "\<dots> = (if ?ms = [] then replicate F 0 else meanVec F ?ms)"
    proof (cases "?ms = []")
      case True
      then have "nc ! i = map (\<lambda>dim. 0) [0..<F]" using nc by simp
      then have "nc ! i = replicate F 0" by (simp add: map_replicate_const)
      then show ?thesis using True cnt by simp
    next
      case False
      then show ?thesis unfolding cnt nc by (simp add: meanVec_def comp_def)
    qed
    finally show "?cs ! i = (if ?ms = [] then replicate F 0 else meanVec F ?ms)" .
  qed
  moreover have "length ?cs = k" using r(2) by simp
  ultimately show ?thesis using u by blast
qed

subsection \<open>Invariant of the ten iterations\<close>

lemma kmIter_char:
  assumes ne: "centroids \<noteq> []" and le: "length centroids \<le> k"
    and len: "\<forall>v \<in> set vectors. length v = F"
  shows "\<exists>cs. kmIter k F vectors centroids = Inr (cs, map (nearest centroids) vectors)
           \<and> length cs = k
           \<and> (\<forall>i < k. cs ! i =
                 (if filter (\<lambda>v. nearest centroids v = i) vectors = [] then replicate F 0
                  else meanVec F (filter (\<lambda>v. nearest centroids v = i) vectors)))"
proof -
  have "\<forall>v \<in> set vectors. nearest centroids v < k"
    using nearest_less [OF ne] le by (meson less_le_trans)
  from updateCentroids_char [OF len this]
  show ?thesis by (auto simp: kmIter_def Let_def)
qed

lemma meanVec_same:
  assumes "ms \<noteq> []" "\<forall>u \<in> set ms. u = v" "length v = F"
  shows "meanVec F ms = v"
proof -
  have s: "sum_list (map (\<lambda>u. u ! dim) ms) = real (length ms) * v ! dim" for dim
    using assms(2) by (induction ms) (simp_all add: algebra_simps)
  have "meanVec F ms = map (\<lambda>dim. v ! dim) [0..<F]"
    unfolding meanVec_def using assms(1) by (intro map_cong) (simp_all add: s)
  also have "\<dots> = v" using assms(3) map_nth [of v] by simp
  finally show ?thesis .
qed

definition kmInv :: "nat \<Rightarrow> nat \<Rightarrow> real list list \<Rightarrow> real list list \<Rightarrow> bool" where
  "kmInv k F vectors cs \<longleftrightarrow>
     cs \<noteq> [] \<and> length cs \<le> k \<and> (\<forall>c \<in> set cs. length c = F)
   \<and> (length vectors < k \<longrightarrow>
        (\<forall>v \<in> set vectors. \<exists>j < length vectors. j < length cs \<and> cs ! j = v))"

lemma nearest_exact_inv:
  assumes len: "\<forall>v \<in> set vectors. length v = F" and inv: "kmInv k F vectors cs"
    and small: "length vectors < k" and v: "v \<in> set vectors"
  shows "cs ! nearest cs v = v \<and> nearest cs v < length vectors"
proof -
  have "\<forall>v \<in> set vectors. \<exists>j < length vectors. j < length cs \<and> cs ! j = v"
    using inv small unfolding kmInv_def by blast
  then obtain j where j: "j < length vectors" "j < length cs" "cs ! j = v"
    using v by blast
  have "\<forall>c \<in> set cs. length c = F" using inv unfolding kmInv_def by blast
  moreover have "length v = F" using len v by blast
  ultimately have "\<forall>c \<in> set cs. length c = length v" by simp
  from nearest_exact [OF j(2) j(3) this] j(1) show ?thesis by simp
qed

lemma nearest_bound:
  assumes len: "\<forall>v \<in> set vectors. length v = F" and inv: "kmInv k F vectors cs"
    and v: "v \<in> set vectors"
  shows "nearest cs v < min k (length vectors)"
proof -
  have ne: "cs \<noteq> []" and le: "length cs \<le> k"
    using inv unfolding kmInv_def by blast+
  have a: "nearest cs v < k" using nearest_less [OF ne, of v] le by simp
  show ?thesis
  proof (cases "length vectors < k")
    case True
    then show ?thesis using nearest_exact_inv [OF len inv True v] a by simp
  next
    case False
    then show ?thesis using a by simp
  qed
qed

lemma kmIter_inv:
  assumes k: "1 \<le> k" and len: "\<forall>v \<in> set vectors. length v = F"
    and inv: "kmInv k F vectors cs"
  shows "\<exists>cs'. kmIter k F vectors cs = Inr (cs', map (nearest cs) vectors)
           \<and> kmInv k F vectors cs'
           \<and> (\<forall>v \<in> set vectors. nearest cs v < min k (length vectors))"
proof -
  have ne: "cs \<noteq> []" and le: "length cs \<le> k"
    using inv unfolding kmInv_def by blast+
  from kmIter_char [OF ne le len]
  obtain cs' where all: "kmIter k F vectors cs = Inr (cs', map (nearest cs) vectors)
           \<and> length cs' = k
           \<and> (\<forall>i < k. cs' ! i =
                 (if filter (\<lambda>v. nearest cs v = i) vectors = [] then replicate F 0
                  else meanVec F (filter (\<lambda>v. nearest cs v = i) vectors)))"
    by (rule exE)
  have it: "kmIter k F vectors cs = Inr (cs', map (nearest cs) vectors)"
    by (rule all [THEN conjunct1])
  have lk: "length cs' = k"
    by (rule all [THEN conjunct2, THEN conjunct1])
  have ch: "cs' ! i =
                 (if filter (\<lambda>v. nearest cs v = i) vectors = [] then replicate F 0
                  else meanVec F (filter (\<lambda>v. nearest cs v = i) vectors))" if "i < k" for i
    using all [THEN conjunct2, THEN conjunct2] that by blast
  have bound: "\<forall>v \<in> set vectors. nearest cs v < min k (length vectors)"
    using nearest_bound [OF len inv] by blast
  have lens: "\<forall>c \<in> set cs'. length c = F"
  proof
    fix c assume "c \<in> set cs'"
    then obtain i where i: "i < k" "c = cs' ! i" using lk by (metis in_set_conv_nth)
    show "length c = F" unfolding i(2) ch [OF i(1)] by (simp add: meanVec_def)
  qed
  have keep: "\<exists>j < length vectors. j < length cs' \<and> cs' ! j = v"
    if small: "length vectors < k" and v: "v \<in> set vectors" for v
  proof -
    let ?a = "nearest cs v"
    let ?ms = "filter (\<lambda>u. nearest cs u = ?a) vectors"
    have a: "?a < length vectors" "cs ! ?a = v"
      using nearest_exact_inv [OF len inv small v] by simp_all
    have ak: "?a < k" using a(1) small by simp
    have "v \<in> set ?ms" using v by simp
    then have "0 < length ?ms" by (rule length_pos_if_in_set)
    then have ne': "?ms \<noteq> []" by blast
    have same: "\<forall>u \<in> set ?ms. u = v"
    proof
      fix u assume "u \<in> set ?ms"
      then have u: "u \<in> set vectors" "nearest cs u = ?a" by simp_all
      have "cs ! nearest cs u = u" using nearest_exact_inv [OF len inv small u(1)] by blast
      then have "u = cs ! nearest cs u" by (rule sym)
      also have "\<dots> = cs ! ?a" by (simp only: u(2))
      also have "\<dots> = v" by (rule a(2))
      finally show "u = v" .
    qed
    have "length v = F" using len v by blast
    with same have "meanVec F ?ms = v" by (rule meanVec_same [OF ne'])
    then have "cs' ! ?a = v" using ch [OF ak] ne' by simp
    then show ?thesis using a(1) ak lk by blast
  qed
  have "cs' \<noteq> []" using k lk by auto
  moreover have "length cs' \<le> k" using lk by simp
  moreover have "length vectors < k \<longrightarrow>
        (\<forall>v \<in> set vectors. \<exists>j < length vectors. j < length cs' \<and> cs' ! j = v)"
    using keep by blast
  ultimately have "kmInv k F vectors cs'"
    unfolding kmInv_def using lens by blast
  then have "kmIter k F vectors cs = Inr (cs', map (nearest cs) vectors)
           \<and> kmInv k F vectors cs'
           \<and> (\<forall>v \<in> set vectors. nearest cs v < min k (length vectors))"
    using it bound by (intro conjI)
  then show ?thesis by (intro exI [of _ cs'])
qed

lemma kmLoop_result:
  assumes k: "1 \<le> k" and len: "\<forall>v \<in> set vectors. length v = F"
  shows "kmInv k F vectors cs \<Longrightarrow>
         \<exists>cs' as'. kmLoop (Suc m) k F vectors (cs, as) = Inr (cs', as')
            \<and> length as' = length vectors
            \<and> (\<forall>a \<in> set as'. a < min k (length vectors))"
proof (induction m arbitrary: cs as)
  case 0
  obtain cs' where "kmIter k F vectors cs = Inr (cs', map (nearest cs) vectors)"
      "\<forall>v \<in> set vectors. nearest cs v < min k (length vectors)"
    using kmIter_inv [OF k len "0.prems"] by blast
  then show ?case by auto
next
  case (Suc m)
  obtain cs' where it: "kmIter k F vectors cs = Inr (cs', map (nearest cs) vectors)"
      and inv': "kmInv k F vectors cs'"
    using kmIter_inv [OF k len Suc.prems] by blast
  from Suc.IH [OF inv', of "map (nearest cs) vectors"] it
  show ?case by simp
qed

lemma initial_centroids_inv:
  assumes k: "1 \<le> k" and ne: "vectors \<noteq> []" and len: "\<forall>v \<in> set vectors. length v = F"
  shows "kmInv k F vectors (if length vectors < k then vectors else take k vectors)"
proof (cases "length vectors < k")
  case True
  have "\<forall>v \<in> set vectors. \<exists>j < length vectors. j < length vectors \<and> vectors ! j = v"
    by (metis in_set_conv_nth)
  then show ?thesis
    unfolding kmInv_def using True ne len by simp
next
  case False
  have "take k vectors \<noteq> []" using k ne by (cases vectors; cases k) auto
  moreover have "\<forall>c \<in> set (take k vectors). length c = F"
    using len by (meson in_set_takeD)
  ultimately show ?thesis
    unfolding kmInv_def using False by simp
qed

lemma result_lookup:
  "key \<noteq> protoKey \<Longrightarrow> key \<in> (\<lambda>p. RawEntity.name (fst p)) ` set xs \<Longrightarrow>
   \<exists>a \<in> snd ` set xs.
      map_of (foldl (\<lambda>res (n, a). recordSet (RawEntity.name n) a res) res0 xs) key = Some a"
proof (induction xs rule: rev_induct)
  case Nil
  then show ?case by simp
next
  case (snoc x xs)
  obtain n a where x: "x = (n, a)" by (cases x)
  show ?case
  proof (cases "key = RawEntity.name n")
    case True
    then show ?thesis using snoc.prems(1) by (simp add: x update_conv' recordSet_def)
  next
    case False
    then have "key \<in> (\<lambda>p. RawEntity.name (fst p)) ` set xs" using snoc.prems x by auto
    from snoc.IH [OF snoc.prems(1) this] False show ?thesis
      by (auto simp: x update_conv' recordSet_def)
  qed
qed

lemma result_proto:
  "map_of res0 protoKey = None \<Longrightarrow>
   map_of (foldl (\<lambda>res (n, a). recordSet (RawEntity.name n) a res) res0 xs) protoKey = None"
  by (induction xs arbitrary: res0) (auto simp: recordSet_def update_conv')

lemma length_kmVectors:
  "length (kmVectors es rs targetType) = length (filter (\<lambda>e. RawEntity.type e = targetType) es)"
  "\<forall>v \<in> set (kmVectors es rs targetType). length v = length (fst (kmFeatures es rs targetType))"
  by (auto simp: kmVectors_def Let_def)

lemma kmeans_returns:
  assumes k: "1 \<le> k" "k < 2 ^ 32" and e: "e \<in> set es" "RawEntity.type e = targetType"
  shows "\<exists>r as'. calculateVectorKMeans es rs targetType k = Inr r
           \<and> result r = foldl (\<lambda>res (n, a). recordSet (RawEntity.name n) a res) []
                           (zip (filter (\<lambda>e. RawEntity.type e = targetType) es) as')
           \<and> length as' = length (filter (\<lambda>e. RawEntity.type e = targetType) es)
           \<and> (\<forall>a \<in> set as'. a < min k (length (filter (\<lambda>e. RawEntity.type e = targetType) es)))"
proof -
  let ?tn = "filter (\<lambda>e. RawEntity.type e = targetType) es"
  let ?vs = "kmVectors es rs targetType"
  let ?F = "length (fst (kmFeatures es rs targetType))"
  let ?c0 = "if length ?vs < k then ?vs else take k ?vs"
  have etn: "e \<in> set ?tn" using e by simp
  then have "0 < length ?tn" by (rule length_pos_if_in_set)
  then have tn: "length ?tn \<noteq> 0" by (simp only: neq0_conv)
  have lv: "length ?vs = length ?tn" by (rule length_kmVectors)
  have ne: "?vs \<noteq> []" using tn lv by auto
  have len: "\<forall>v \<in> set ?vs. length v = ?F" by (rule length_kmVectors)
  have inv: "kmInv k ?F ?vs ?c0" by (rule initial_centroids_inv [OF k(1) ne len])
  obtain cs' as' where loop: "kmLoop 10 k ?F ?vs (?c0, replicate (length ?vs) 0) = Inr (cs', as')"
      and las: "length as' = length ?vs"
      and bound: "\<forall>a \<in> set as'. a < min k (length ?vs)"
    using kmLoop_result [OF k(1) len inv, of 9 "replicate (length ?vs) 0"] by (auto simp: numeral_nat)
  let ?res = "foldl (\<lambda>res (n, a). recordSet (RawEntity.name n) a res) [] (zip ?tn as')"
  have nk: "\<not> (2 ^ 32 \<le> k)" using k(2) by simp
  have "\<exists>r. calculateVectorKMeans es rs targetType k = Inr r \<and> result r = ?res"
    using tn loop nk by (simp add: calculateVectorKMeans_def Let_def)
  then show ?thesis using las bound lv by auto
qed

lemma kmeans_assigns:
  assumes k: "1 \<le> k" "k < 2 ^ 32" and e: "e \<in> set es" "RawEntity.type e = targetType"
    and np: "RawEntity.name e \<noteq> protoKey"
  shows "\<exists>r c. calculateVectorKMeans es rs targetType k = Inr r
           \<and> map_of (result r) (RawEntity.name e) = Some c
           \<and> c < min k (length (filter (\<lambda>e. RawEntity.type e = targetType) es))"
proof -
  let ?tn = "filter (\<lambda>e. RawEntity.type e = targetType) es"
  obtain r as' where r: "calculateVectorKMeans es rs targetType k = Inr r"
      and res: "result r = foldl (\<lambda>res (n, a). recordSet (RawEntity.name n) a res) [] (zip ?tn as')"
      and las: "length as' = length ?tn"
      and bound: "\<forall>a \<in> set as'. a < min k (length ?tn)"
    using kmeans_returns [OF k e, of rs] by blast
  have etn: "e \<in> set ?tn" using e by simp
  have "RawEntity.name e \<in> (\<lambda>p. RawEntity.name (fst p)) ` set (zip ?tn as')"
  proof -
    obtain i where i: "i < length ?tn" "?tn ! i = e" using etn by (metis in_set_conv_nth)
    then have "(e, as' ! i) \<in> set (zip ?tn as')"
      using las by (auto simp: set_zip)
    then show ?thesis by force
  qed
  then obtain c where c: "c \<in> snd ` set (zip ?tn as')" "map_of (result r) (RawEntity.name e) = Some c"
    unfolding res using result_lookup [OF np] by blast
  have "c \<in> set as'" using c(1) by (auto dest: set_zip_rightD)
  then have cb: "c < min k (length ?tn)" using bound by simp
  show ?thesis using r c(2) cb by auto
qed

lemma kmeans_proto:
  assumes k: "1 \<le> k" "k < 2 ^ 32" and e: "e \<in> set es" "RawEntity.type e = targetType"
  shows "\<not> isl (calculateVectorKMeans es rs targetType k)
       \<and> map_of (result (projr (calculateVectorKMeans es rs targetType k))) protoKey = None"
proof -
  obtain r as' where r: "calculateVectorKMeans es rs targetType k = Inr r"
      and res: "result r = foldl (\<lambda>res (n, a). recordSet (RawEntity.name n) a res) []
                  (zip (filter (\<lambda>e. RawEntity.type e = targetType) es) as')"
    using kmeans_returns [OF k e, of rs] by blast
  have "map_of (result r) protoKey = None"
    unfolding res by (rule result_proto) simp
  then show ?thesis using r by simp
qed

section \<open>Claims about the k-means clusterer\<close>

text \<open>
  The example: two target entities \<open>a\<close>, \<open>b\<close> of type \<open>T\<close>, both related to the one
  feature \<open>f\<close>.
\<close>

definition kmEntities :: "RawEntity list" where
  "kmEntities = [ent [0x54] [0x61], ent [0x54] [0x62], ent [0x58] [0x66]]"

definition kmRelations :: "RawRelation list" where
  "kmRelations = [rel [0x61] [0x72] [0x66], rel [0x62] [0x72] [0x66]]"

lemma kmExample_vectors: "kmVectors kmEntities kmRelations [0x54] = [[1], [1]]"
  by (simp add: kmVectors_def kmFeatures_def kmEntities_def kmRelations_def ent_def rel_def
      hasEntity_def firstTypeIs_def connect_def setAdd_def Let_def)

lemma kmExample_nearest: "nearest [[1], [1]] [1] = 0"
  by (simp add: nearest_def nearer_def distance_km_def upt_rec)

text \<open>
  C3 (as stated, refuted). The claim says that a centroid without members keeps the value it
  had before the update step. In the example with \<open>k = 2\<close> both vectors are \<open>[1]\<close>, the
  initial centroids are \<open>[[1], [1]]\<close>, both vectors are assigned to centroid 0, and the
  update turns centroid 1, which has no member, from \<open>[1]\<close> into \<open>[0]\<close>: the untouched
  accumulator row of \<open>newCentroids\<close>, not the previous centroid.
\<close>

theorem empty_cluster_centroid_counterexample:
  "kmVectors kmEntities kmRelations [0x54] = [[1], [1]]
   \<and> take 2 (kmVectors kmEntities kmRelations [0x54]) = [[1], [1]]
   \<and> kmIter 2 1 [[1], [1]] [[1], [1]] = Inr ([[1], [0]], [0, 0])"
  by (simp add: kmExample_vectors kmIter_def kmExample_nearest updateCentroids_def accumulate_def
      vadd_def Let_def numeral_2_eq_2 upt_rec)

text \<open>
  C3 (amended). In every iteration (at least one centroid, at most \<open>k\<close> of them, all
  vectors of the feature length) the update step returns \<open>k\<close> centroids: a centroid with
  at least one assigned vector is the elementwise mean of its assigned vectors, and a centroid
  with no assigned vector is the zero vector.
\<close>

theorem centroid_update_mean_or_zero:
  assumes "centroids \<noteq> []" and "length centroids \<le> k"
    and "\<forall>v \<in> set vectors. length v = F"
  shows "\<exists>cs. kmIter k F vectors centroids = Inr (cs, map (nearest centroids) vectors)
           \<and> length cs = k
           \<and> (\<forall>i < k. cs ! i =
                 (if filter (\<lambda>v. nearest centroids v = i) vectors = [] then replicate F 0
                  else meanVec F (filter (\<lambda>v. nearest centroids v = i) vectors)))"
  using assms by (rule kmIter_char)

theorem centroid_update_mean_or_zero_witness:
  "\<exists>cs. kmIter 2 1 [[1], [1]] [[1], [1]] = Inr (cs, [0, 0]) \<and> length cs = 2
      \<and> cs ! 0 = meanVec 1 [[1], [1]] \<and> cs ! 1 = replicate 1 0"
proof -
  from centroid_update_mean_or_zero [of "[[1], [1]]" 2 "[[1], [1]]" 1]
  obtain cs where cs: "kmIter 2 1 [[1], [1]] [[1], [1]] = Inr (cs, map (nearest [[1], [1]]) [[1], [1]])"
     "length cs = 2"
     "\<forall>i < 2. cs ! i =
                 (if filter (\<lambda>v. nearest [[1], [1]] v = i) [[1], [1]] = [] then replicate 1 0
                  else meanVec 1 (filter (\<lambda>v. nearest [[1], [1]] v = i) [[1], [1]]))"
    by auto
  have "cs ! 0 = meanVec 1 [[1], [1]]" using cs(3) by (simp add: kmExample_nearest)
  moreover have "cs ! 1 = replicate 1 0" using cs(3) by (simp add: kmExample_nearest)
  ultimately show ?thesis using cs(1,2) by (simp add: kmExample_nearest)
qed

text \<open>
  C4 (as stated, refuted). The claim promises an index for every \<open>k \<ge> 1\<close> and for every
  entity of the target type. With \<open>k = 2\<^sup>3\<^sup>2\<close> the call on the example raises the
  RangeError of \<open>Array(k)\<close> and returns nothing. With \<open>k = 1\<close> and the single target entity
  named \<open>__proto__\<close> the call returns, and the result record has no entry for that entity.
\<close>

theorem kmeans_index_range_counterexample:
  "(1::nat) \<le> 4294967296
   \<and> ent [0x54] [0x61] \<in> set kmEntities
   \<and> RawEntity.type (ent [0x54] [0x61]) = [0x54]
   \<and> calculateVectorKMeans kmEntities kmRelations [0x54] 4294967296 = Inl RangeError
   \<and> ent [0x54] protoKey \<in> set [ent [0x54] protoKey]
   \<and> RawEntity.type (ent [0x54] protoKey) = [0x54]
   \<and> \<not> isl (calculateVectorKMeans [ent [0x54] protoKey] [] [0x54] 1)
   \<and> map_of (result (projr (calculateVectorKMeans [ent [0x54] protoKey] [] [0x54] 1)))
         (RawEntity.name (ent [0x54] protoKey)) = None"
proof -
  have a: "(1::nat) \<le> 4294967296" "ent [0x54] [0x61] \<in> set kmEntities"
      "RawEntity.type (ent [0x54] [0x61]) = [0x54]"
    by (simp_all add: kmEntities_def ent_def)
  have b: "calculateVectorKMeans kmEntities kmRelations [0x54] 4294967296 = Inl RangeError"
    by (simp add: calculateVectorKMeans_def kmEntities_def ent_def)
  have c: "ent [0x54] protoKey \<in> set [ent [0x54] protoKey]"
      "RawEntity.type (ent [0x54] protoKey) = [0x54]"
    by (simp_all add: ent_def)
  have n: "RawEntity.name (ent [0x54] protoKey) = protoKey" by (simp add: ent_def)
  have d: "\<not> isl (calculateVectorKMeans [ent [0x54] protoKey] [] [0x54] 1)
       \<and> map_of (result (projr (calculateVectorKMeans [ent [0x54] protoKey] [] [0x54] 1)))
            (RawEntity.name (ent [0x54] protoKey)) = None"
    unfolding n by (rule kmeans_proto [OF _ _ c]) simp_all
  show ?thesis using a b c d by blast
qed

text \<open>
  C4 (amended). For every natural number \<open>k\<close> with \<open>1 \<le> k < 2\<^sup>3\<^sup>2\<close> the call returns,
  and every entity of the target type whose name is not \<open>__proto__\<close> is assigned one
  cluster index, which is below \<open>min k n\<close>, where \<open>n\<close> is the number of target entities;
  with \<open>k = 1\<close> the index is 0.
\<close>

theorem kmeans_cluster_index_range:
  assumes "1 \<le> k" and "k < 2 ^ 32" and "e \<in> set es" and "RawEntity.type e = targetType"
    and "RawEntity.name e \<noteq> protoKey"
  shows "(\<exists>r c. calculateVectorKMeans es rs targetType k = Inr r
           \<and> map_of (result r) (RawEntity.name e) = Some c
           \<and> c < min k (length (filter (\<lambda>e. RawEntity.type e = targetType) es)))
       \<and> (\<exists>r. calculateVectorKMeans es rs targetType 1 = Inr r
           \<and> map_of (result r) (RawEntity.name e) = Some 0)"
proof
  show "\<exists>r c. calculateVectorKMeans es rs targetType k = Inr r
           \<and> map_of (result r) (RawEntity.name e) = Some c
           \<and> c < min k (length (filter (\<lambda>e. RawEntity.type e = targetType) es))"
    using assms by (rule kmeans_assigns)
next
  have one: "(1::nat) \<le> 1" "(1::nat) < 2 ^ 32" by simp_all
  obtain r c where "calculateVectorKMeans es rs targetType 1 = Inr r"
      "map_of (result r) (RawEntity.name e) = Some c"
      "c < min 1 (length (filter (\<lambda>e. RawEntity.type e = targetType) es))"
    using kmeans_assigns [OF one assms(3,4,5), of rs] by auto
  then show "\<exists>r. calculateVectorKMeans es rs targetType 1 = Inr r
           \<and> map_of (result r) (RawEntity.name e) = Some 0"
    by auto
qed

theorem kmeans_cluster_index_range_witness:
  "(1::nat) \<le> 3 \<and> (3::nat) < 2 ^ 32 \<and> ent [0x54] [0x61] \<in> set kmEntities
   \<and> RawEntity.type (ent [0x54] [0x61]) = [0x54]
   \<and> RawEntity.name (ent [0x54] [0x61]) \<noteq> protoKey
   \<and> (\<exists>r c. calculateVectorKMeans kmEntities kmRelations [0x54] 3 = Inr r
           \<and> map_of (result r) [0x61] = Some c \<and> c < 2)"
proof -
  have h: "(1::nat) \<le> 3" "(3::nat) < 2 ^ 32" "ent [0x54] [0x61] \<in> set kmEntities"
      "RawEntity.type (ent [0x54] [0x61]) = [0x54]"
      "RawEntity.name (ent [0x54] [0x61]) \<noteq> protoKey"
    by (simp_all add: kmEntities_def ent_def protoKey_def)
  have n: "length (filter (\<lambda>e. RawEntity.type e = [0x54]) kmEntities) = 2"
    by (simp add: kmEntities_def ent_def)
  have nm: "RawEntity.name (ent [0x54] [0x61]) = [0x61]" by (simp add: ent_def)
  from kmeans_cluster_index_range [OF h, of kmRelations]
  obtain r c where "calculateVectorKMeans kmEntities kmRelations [0x54] 3 = Inr r"
      "map_of (result r) [0x61] = Some c" "c < min 3 2"
    unfolding n nm by blast
  then have "\<exists>r c. calculateVectorKMeans kmEntities kmRelations [0x54] 3 = Inr r
           \<and> map_of (result r) [0x61] = Some c \<and> c < 2"
    by auto
  then show ?thesis using h by blast
qed

section \<open>Bipartite community detector: calculateBipartiteCommunity\<close>

text \<open>
  \<open>labels\<close> is a plain object keyed by the node ids. Its values are node indices and,
  once a label was read from the key \<open>__proto__\<close>, \<open>NaN\<close>. Reading it at \<open>__proto__\<close>
  returns the prototype object; assigning a number there does nothing (\<open>recordSet\<close>). It is
  read at node ids only, which are its own keys but for \<open>__proto__\<close>; at any other key the
  value is \<open>undefined\<close>.
\<close>

datatype label = Lab nat | NaNLabel | ProtoObject | Undefined

type_synonym labelling = "(jsstring \<times> label) list"

definition labelOf :: "labelling \<Rightarrow> jsstring \<Rightarrow> label" where
  "labelOf labels key =
     (if key = protoKey then ProtoObject
      else (case map_of labels key of Some l \<Rightarrow> l | None \<Rightarrow> Undefined))"

text \<open>
  \<open>counts[l] = (counts[l] || 0) + 1\<close>: the key is the string of the label, which is
  different for different labels, so that \<open>counts\<close> is keyed by the label.
\<close>

definition countLabel :: "(label \<times> nat) list \<Rightarrow> label \<Rightarrow> (label \<times> nat) list" where
  "countLabel counts l = AList.update l ((case map_of counts l of Some c \<Rightarrow> c | None \<Rightarrow> 0) + 1) counts"

text \<open>
  \<open>Object.entries\<close> lists the keys that are array indices first, in ascending numeric
  order, and the other keys after them in the order of their creation. Every node index is
  an array index.
\<close>

fun isLab :: "label \<Rightarrow> bool" where
  "isLab (Lab i) = True"
| "isLab l = False"

fun labIndex :: "label \<Rightarrow> nat" where
  "labIndex (Lab i) = i"
| "labIndex l = 0"

definition countEntries :: "(label \<times> nat) list \<Rightarrow> (label \<times> nat) list" where
  "countEntries counts =
     sort_key (\<lambda>lc. labIndex (fst lc)) (filter (\<lambda>lc. isLab (fst lc)) counts)
     @ filter (\<lambda>lc. \<not> isLab (fst lc)) counts"

text \<open>
  \<open>if (c > maxC) { maxC = c; bestL = Number(l); }\<close> from \<open>bestL = -1, maxC = -1\<close>; the
  \<open>bestL\<close> of the start is \<open>None\<close>. \<open>Number(l)\<close> is \<open>NaN\<close> for the keys \<open>NaN\<close>,
  \<open>[object Object]\<close> and \<open>undefined\<close>.
\<close>

fun numberOf :: "label \<Rightarrow> label" where
  "numberOf (Lab i) = Lab i"
| "numberOf l = NaNLabel"

definition better :: "label option \<times> int \<Rightarrow> label \<times> nat \<Rightarrow> label option \<times> int" where
  "better st lc = (if int (snd lc) > snd st then (Some (numberOf (fst lc)), int (snd lc)) else st)"

text \<open>\<open>a !== b\<close> for a number \<open>b\<close>: \<open>NaN\<close> is different from itself.\<close>

definition strictNeq :: "label \<Rightarrow> label \<Rightarrow> bool" where
  "strictNeq a b \<longleftrightarrow> a \<noteq> b \<or> b = NaNLabel"

text \<open>The body of \<open>for (const n of shuffled)\<close>, on the labels and the flag \<open>change\<close>.\<close>

definition lpVisit :: "adjacency \<Rightarrow> labelling \<times> bool \<Rightarrow> GraphNode \<Rightarrow> labelling \<times> bool" where
  "lpVisit adj st n =
     (let neighbors = (case map_of adj (GraphNode.id' n) of Some es \<Rightarrow> es | None \<Rightarrow> [])
      in if neighbors = [] then st
         else
          (let counts = foldl (\<lambda>counts nb. countLabel counts (labelOf (fst st) (Neighbor.id' nb)))
                          [] neighbors;
               bestL = fst (foldl better (None, -1) (countEntries counts))
           in case bestL of
                None \<Rightarrow> st
              | Some b \<Rightarrow>
                  if strictNeq (labelOf (fst st) (GraphNode.id' n)) b
                  then (recordSet (GraphNode.id' n) b (fst st), True)
                  else st))"

text \<open>
  \<open>for (let i = 0; i < 20; i++)\<close>, with \<open>left\<close> passes to go. \<open>shuffled i\<close> is the array
  that \<open>[...nodes].sort(() => Math.random() - 0.5)\<close> returns in pass \<open>i\<close>.
\<close>

fun lpLoop :: "adjacency \<Rightarrow> (nat \<Rightarrow> GraphNode list) \<Rightarrow> nat \<Rightarrow> nat \<Rightarrow> labelling \<Rightarrow> labelling" where
  "lpLoop adj shuffled 0 i labels = labels"
| "lpLoop adj shuffled (Suc left) i labels =
     (let st = foldl (lpVisit adj) (labels, False) (shuffled i)
      in if snd st then lpLoop adj shuffled left (i + 1) (fst st) else fst st)"

text \<open>
  The keys of a plain object in the order of \<open>Object.values\<close>: a key is an array index
  when it is the decimal numeral, without a leading zero, of a number below \<open>2\<^sup>3\<^sup>2 - 1\<close>.
\<close>

definition isDigit :: "16 word \<Rightarrow> bool" where
  "isDigit c \<longleftrightarrow> 0x30 \<le> c \<and> c \<le> 0x39"

definition arrayIndex :: "jsstring \<Rightarrow> nat option" where
  "arrayIndex s =
     (if s = [] \<or> \<not> list_all isDigit s \<or> (hd s = 0x30 \<and> length s > 1) then None
      else (let v = foldl (\<lambda>acc c. 10 * acc + (unat c - 48)) 0 s
            in if v < 2 ^ 32 - 1 then Some v else None))"

definition objectEntries :: "(jsstring \<times> 'a) list \<Rightarrow> (jsstring \<times> 'a) list" where
  "objectEntries r =
     sort_key (\<lambda>kv. the (arrayIndex (fst kv))) (filter (\<lambda>kv. arrayIndex (fst kv) \<noteq> None) r)
     @ filter (\<lambda>kv. arrayIndex (fst kv) = None) r"

text \<open>\<open>Array.from(new Set(xs))\<close>: the first occurrence of every value, in order.\<close>

definition uniqueOf :: "'a list \<Rightarrow> 'a list" where
  "uniqueOf xs = foldl (\<lambda>acc x. if x \<in> set acc then acc else acc @ [x]) [] xs"

text \<open>\<open>labelMap.get(l) || 0\<close>: the position of \<open>l\<close> among the unique labels, or 0.\<close>

definition labelIndex :: "label list \<Rightarrow> label \<Rightarrow> nat" where
  "labelIndex uniqueLabels l =
     (if l \<in> set uniqueLabels then length (takeWhile (\<lambda>x. x \<noteq> l) uniqueLabels) else 0)"

definition zeroMetrics :: Metrics where
  "zeroMetrics = \<lparr>Metrics.degree = 0, betweenness = 0, closeness = 0, kCore = 0,
                   community = 0, clusteringCoeff = 0\<rparr>"

definition calculateBipartiteCommunity ::
    "(nat \<Rightarrow> GraphNode list) \<Rightarrow> RawEntity list \<Rightarrow> RawRelation list \<Rightarrow> jsstring \<Rightarrow> jsstring
     \<Rightarrow> GraphData" where
  "calculateBipartiteCommunity shuffled es rs frontType backType =
     (let frontNodes = filter (\<lambda>e. RawEntity.type e = frontType) es;
          backNodes = filter (\<lambda>e. RawEntity.type e = backType) es;
          validNames = map RawEntity.name (frontNodes @ backNodes);
          validLinks = filter (\<lambda>r. RawRelation.source r \<in> set validNames
                                   \<and> RawRelation.target r \<in> set validNames
                                   \<and> RawRelation.source r \<noteq> RawRelation.target r) rs;
          ns = map (\<lambda>e. \<lparr>GraphNode.id' = RawEntity.name e, group = RawEntity.type e,
                          metrics = Some zeroMetrics, clusters = None\<rparr>) (frontNodes @ backNodes);
          ls = map (\<lambda>r. \<lparr>GraphLink.source = EndId (RawRelation.source r),
                          target = EndId (RawRelation.target r), type = RawRelation.relation r,
                          weight = None, association = None\<rparr>) validLinks;
          adj = getAdjacency ns ls False;
          labels0 = foldl (\<lambda>labels ni. recordSet (GraphNode.id' (fst ni)) (Lab (snd ni)) labels)
                      [] (zip ns [0..<length ns]);
          labels = lpLoop adj shuffled 20 0 labels0;
          uniqueLabels = uniqueOf (map snd (objectEntries labels))
      in \<lparr>GraphData.nodes =
            map (\<lambda>n. n\<lparr>metrics := Some (zeroMetrics\<lparr>community :=
                         labelIndex uniqueLabels (labelOf labels (GraphNode.id' n))\<rparr>)\<rparr>) ns,
          links = ls\<rparr>)"

lemma foldl_lpVisit_isolated:
  assumes "\<forall>v. map_of adj v = None \<or> map_of adj v = Some []"
  shows "foldl (lpVisit adj) st ns = st"
proof (induction ns arbitrary: st)
  case Nil
  show ?case by simp
next
  case (Cons n ns)
  have "lpVisit adj st n = st"
    using assms [rule_format, of "GraphNode.id' n"] by (auto simp: lpVisit_def)
  then show ?case using Cons by simp
qed

lemma lpLoop_isolated:
  assumes "\<forall>v. map_of adj v = None \<or> map_of adj v = Some []"
  shows "lpLoop adj shuffled (Suc left) i labels = labels"
  by (simp add: foldl_lpVisit_isolated [OF assms])

section \<open>Claims about the community detector\<close>

text \<open>
  Two entities of the front type, named \<open>__proto__\<close> and \<open>x\<close>, and no relation: the
  subgraph has two nodes and no link, hence two connected components.
\<close>

definition protoEntities :: "RawEntity list" where
  "protoEntities = [ent [0x46] protoKey, ent [0x46] [0x78]]"

text \<open>
  C9 (defect of the code). Labels cannot cross from one component to another, and the node
  indices that start as labels are different for different ids: the claim holds wherever
  \<open>labels\<close> behaves as a map. The code misses it for the id \<open>__proto__\<close>. On the two
  isolated nodes \<open>__proto__\<close> and \<open>x\<close> the assignment \<open>labels["__proto__"] = 0\<close> does
  nothing, the only label is the 1 of \<open>x\<close>, which is remapped to 0, and the lookup for
  \<open>__proto__\<close> falls back to 0: for every visiting order both nodes end in community 0,
  one label for two components.
\<close>

theorem community_proto_single_label:
  "map (\<lambda>n. community (the (metrics n)))
     (GraphData.nodes (calculateBipartiteCommunity shuffled protoEntities [] [0x46] [0x42]))
   = [0, 0]
   \<and> map GraphNode.id' (GraphData.nodes (calculateBipartiteCommunity shuffled protoEntities [] [0x46] [0x42]))
     = [protoKey, [0x78]]
   \<and> GraphData.links (calculateBipartiteCommunity shuffled protoEntities [] [0x46] [0x42]) = []"
proof -
  let ?ns = "[\<lparr>GraphNode.id' = protoKey, group = [0x46], metrics = Some zeroMetrics, clusters = None\<rparr>,
              \<lparr>GraphNode.id' = [0x78], group = [0x46], metrics = Some zeroMetrics, clusters = None\<rparr>]"
  have iso: "\<forall>v. map_of (getAdjacency ?ns [] False) v = None \<or> map_of (getAdjacency ?ns [] False) v = Some []"
    by (simp add: getAdjacency_lookup)
  have l: "lpLoop (getAdjacency ?ns [] False) shuffled 20 0 labels = labels" for labels
    using lpLoop_isolated [OF iso, of shuffled 19 0 labels] by (simp add: numeral_nat)
  have up: "[0..<2] = [0, Suc 0]" by (simp add: upt_rec)
  have pk: "protoKey \<noteq> [0x78]" by (simp add: protoKey_def)
  have ai: "arrayIndex [0x78] = None" by (simp add: arrayIndex_def isDigit_def)
  show ?thesis
    using pk
    by (simp add: calculateBipartiteCommunity_def Let_def protoEntities_def ent_def l up recordSet_def
        objectEntries_def ai uniqueOf_def labelIndex_def labelOf_def)
qed

section \<open>Association rule miner: calculateAssociationRules\<close>

text \<open>
  The rule fields are quotients of counts, and a quotient by a zero count is \<open>Infinity\<close>:
  they are numbers of the type \<open>jsnum\<close>, with the arithmetic of the hierarchical clusterer.
  \<open>transactions\<close>, \<open>connectorMap\<close>, \<open>itemCounts\<close> and \<open>pairCounts\<close> are instances of
  \<open>Map\<close>, association lists in insertion order; a \<open>Set\<close> is a duplicate-free list.
\<close>

record AssociationRuleResult =
  source :: jsstring
  target :: jsstring
  support :: jsnum
  confidence :: jsnum
  lift :: jsnum
  cooccur :: nat

record RuleMinerResult =
  rules :: "AssociationRuleResult list"
  nodes :: "GraphNode list"
  links :: "GraphLink list"

text \<open>\<open>entities.find(e => e.name === n)?.type\<close>, \<open>None\<close> for \<open>undefined\<close>.\<close>

definition typeOf :: "RawEntity list \<Rightarrow> jsstring \<Rightarrow> jsstring option" where
  "typeOf es n = map_option RawEntity.type (List.find (\<lambda>e. RawEntity.name e = n) es)"

text \<open>The decimal numeral of an index, for the key \<open>direct_${idx}\<close>.\<close>

function decimal :: "nat \<Rightarrow> jsstring" where
  "decimal n = (if n < 10 then [of_nat (48 + n)] else decimal (n div 10) @ [of_nat (48 + n mod 10)])"
  by pat_completeness auto
termination
  by (relation "measure id") auto

declare decimal.simps [simp del]

definition directKey :: "nat \<Rightarrow> jsstring" where
  "directKey idx = [0x64, 0x69, 0x72, 0x65, 0x63, 0x74, 0x5F] @ decimal idx"

definition addDirect :: "RawEntity list \<Rightarrow> jsstring \<Rightarrow> jsstring
    \<Rightarrow> (jsstring \<times> jsstring list) list \<Rightarrow> RawRelation \<times> nat \<Rightarrow> (jsstring \<times> jsstring list) list" where
  "addDirect es frontType backType transactions ri =
     (let r = fst ri; idx = snd ri
      in if typeOf es (RawRelation.source r) = Some frontType
            \<and> typeOf es (RawRelation.target r) = Some backType
         then AList.update (directKey idx)
                (setAdd (RawRelation.target r) (setAdd (RawRelation.source r) [])) transactions
         else transactions)"

text \<open>
  \<open>if (!connectorMap.has(s)) connectorMap.set(s, new Set()); connectorMap.get(s)?.add(r.target)\<close>
\<close>

definition addConnector :: "(jsstring \<times> jsstring list) list \<Rightarrow> RawRelation
    \<Rightarrow> (jsstring \<times> jsstring list) list" where
  "addConnector connectorMap r =
     (let s = RawRelation.source r;
          m1 = (if map_of connectorMap s = None then AList.update s [] connectorMap else connectorMap)
      in AList.update s (setAdd (RawRelation.target r)
                           (case map_of m1 s of Some items \<Rightarrow> items | None \<Rightarrow> [])) m1)"

definition addTransaction :: "RawEntity list \<Rightarrow> jsstring \<Rightarrow> jsstring
    \<Rightarrow> (jsstring \<times> jsstring list) list \<Rightarrow> jsstring \<times> jsstring list
    \<Rightarrow> (jsstring \<times> jsstring list) list" where
  "addTransaction es frontType backType transactions ci =
     (let fronts = filter (\<lambda>i. typeOf es i = Some frontType) (snd ci);
          backs = filter (\<lambda>i. typeOf es i = Some backType) (snd ci)
      in if length fronts > 0 \<and> length backs > 0
         then AList.update (fst ci) (foldl (\<lambda>t i. setAdd i t) [] (fronts @ backs)) transactions
         else transactions)"

text \<open>The keys \<open>${f}|${b}\<close> of one transaction, in the order of the two nested loops.\<close>

definition pairKeys :: "RawEntity list \<Rightarrow> jsstring \<Rightarrow> jsstring \<Rightarrow> jsstring list \<Rightarrow> jsstring list" where
  "pairKeys es frontType backType arr =
     concat (map (\<lambda>f. map (\<lambda>b. f @ [bar] @ b) (filter (\<lambda>i. typeOf es i = Some backType) arr))
               (filter (\<lambda>i. typeOf es i = Some frontType) arr))"

text \<open>\<open>a >= b\<close> on numbers: false when one of them is \<open>NaN\<close>.\<close>

definition jsge :: "jsnum \<Rightarrow> jsnum \<Rightarrow> bool" where
  "jsge a b \<longleftrightarrow> a \<noteq> NaN \<and> b \<noteq> NaN \<and> \<not> jslt a b"

text \<open>
  The body of \<open>pairCounts.forEach\<close>, on the rules and the set \<open>validNodes\<close>.
  \<open>(itemCounts.get(x) || 0) / totalTrans\<close> is the support of one name.
\<close>

definition supportOf :: "(jsstring \<times> nat) list \<Rightarrow> nat \<Rightarrow> jsstring \<Rightarrow> jsnum" where
  "supportOf itemCounts totalTrans x =
     jsdiv (Fin (real (case map_of itemCounts x of Some c \<Rightarrow> c | None \<Rightarrow> 0))) (Fin (real totalTrans))"

definition addRule :: "(jsstring \<times> nat) list \<Rightarrow> nat \<Rightarrow> jsnum \<Rightarrow> jsnum
    \<Rightarrow> AssociationRuleResult list \<times> jsstring list \<Rightarrow> jsstring \<times> nat
    \<Rightarrow> AssociationRuleResult list \<times> jsstring list" where
  "addRule itemCounts totalTrans minSupport minConfidence st kc =
     (let src = splitBar (fst kc) ! 0;
          tgt = splitBar (fst kc) ! 1;
          sup = jsdiv (Fin (real (snd kc))) (Fin (real totalTrans));
          supportSource = supportOf itemCounts totalTrans src;
          supportTarget = supportOf itemCounts totalTrans tgt
      in if jsge sup minSupport
         then (let conf = jsdiv sup supportSource
               in if jsge conf minConfidence
                  then (fst st @ [\<lparr>AssociationRuleResult.source = src, target = tgt, support = sup,
                                   confidence = conf, lift = jsdiv conf supportTarget,
                                   cooccur = snd kc\<rparr>],
                        setAdd tgt (setAdd src (snd st)))
                  else st)
         else st)"

text \<open>
  \<open>rules.sort((a, b) => b.lift - a.lift)\<close>: a stable sort; \<open>a\<close> goes before \<open>b\<close> when
  \<open>b.lift - a.lift\<close> is negative, which is \<open>b.lift < a.lift\<close>, and false when the
  difference is \<open>NaN\<close>.
\<close>

fun insertRule :: "AssociationRuleResult \<Rightarrow> AssociationRuleResult list \<Rightarrow> AssociationRuleResult list" where
  "insertRule x [] = [x]"
| "insertRule x (y # ys) =
     (if jslt (AssociationRuleResult.lift x) (AssociationRuleResult.lift y)
      then y # insertRule x ys else x # y # ys)"

definition sortRules :: "AssociationRuleResult list \<Rightarrow> AssociationRuleResult list" where
  "sortRules rs = foldr insertRule rs []"

definition calculateAssociationRules ::
    "RawEntity list \<Rightarrow> RawRelation list \<Rightarrow> jsstring \<Rightarrow> jsstring \<Rightarrow> jsnum \<Rightarrow> jsnum
     \<Rightarrow> RuleMinerResult" where
  "calculateAssociationRules es rs frontType backType minSupport minConfidence =
     (let direct = foldl (addDirect es frontType backType) [] (zip rs [0..<length rs]);
          connectorMap = foldl addConnector [] rs;
          transactions = foldl (addTransaction es frontType backType) direct connectorMap;
          totalTrans = length transactions
      in if totalTrans = 0 then \<lparr>rules = [], nodes = [], links = []\<rparr>
         else
          (let itemCounts = foldl (\<lambda>ic items. foldl bumpKey ic items) [] (map snd transactions);
               pairCounts = foldl (\<lambda>pc items. foldl bumpKey pc (pairKeys es frontType backType items))
                              [] (map snd transactions);
               st = foldl (addRule itemCounts totalTrans minSupport minConfidence) ([], []) pairCounts;
               sorted = sortRules (fst st)
           in \<lparr>rules = sorted,
               nodes = map (\<lambda>i. \<lparr>GraphNode.id' = i,
                                  group = (case typeOf es i of
                                             None \<Rightarrow> [0x55, 0x6E, 0x6B, 0x6E, 0x6F, 0x77, 0x6E]
                                           | Some t \<Rightarrow> if t = [] then [0x55, 0x6E, 0x6B, 0x6E, 0x6F, 0x77, 0x6E]
                                                       else t),
                                  metrics = Some zeroMetrics, clusters = None\<rparr>) (snd st),
               links = map (\<lambda>r. \<lparr>GraphLink.source = EndId (AssociationRuleResult.source r),
                                  target = EndId (AssociationRuleResult.target r),
                                  type = [0x61, 0x73, 0x73, 0x6F, 0x63], weight = None,
                                  association = Some \<lparr>Association.support = AssociationRuleResult.support r,
                                                       confidence = AssociationRuleResult.confidence r,
                                                       lift = AssociationRuleResult.lift r,
                                                       isRule = Some True\<rparr>\<rparr>) sorted\<rparr>))"

section \<open>Claims about the association rule miner\<close>

text \<open>
  The front item \<open>a|b\<close> and the back item \<open>c\<close>, related once.
\<close>

definition barEntities :: "RawEntity list" where
  "barEntities = [ent [0x46] [0x61, 0x7C, 0x62], ent [0x42] [0x63]]"

definition barRelations :: "RawRelation list" where
  "barRelations = [rel [0x61, 0x7C, 0x62] [0x72] [0x63]]"

lemma bar_transactions:
  "foldl (addTransaction barEntities [0x46] [0x42])
     (foldl (addDirect barEntities [0x46] [0x42]) [] (zip barRelations [0..<length barRelations]))
     (foldl addConnector [] barRelations)
   = [(directKey 0, [[0x61, 0x7C, 0x62], [0x63]])]"
  by (simp add: barEntities_def barRelations_def ent_def rel_def addDirect_def addConnector_def
      addTransaction_def typeOf_def setAdd_def Let_def)

text \<open>
  C7 (defect of the code). A pair is stored under the key \<open>${f}|${b}\<close> and read back with
  \<open>key.split('|')\<close>, which returns the pair only when neither name contains the
  separator. With the front item \<open>a|b\<close> and the back item \<open>c\<close> in one transaction and
  both thresholds 0, the support of the pair and of both items is 1, and the claim gives
  the rule from \<open>a|b\<close> to \<open>c\<close> the confidence 1 and the lift 1. The rule returned
  names \<open>a\<close> and \<open>b\<close>, which are in no transaction: their supports are 0, and the
  confidence and the lift are \<open>Infinity\<close>.
\<close>

theorem rule_of_bar_item:
  "foldl (addTransaction barEntities [0x46] [0x42])
     (foldl (addDirect barEntities [0x46] [0x42]) [] (zip barRelations [0..<length barRelations]))
     (foldl addConnector [] barRelations)
   = [(directKey 0, [[0x61, 0x7C, 0x62], [0x63]])]
   \<and> rules (calculateAssociationRules barEntities barRelations [0x46] [0x42] (Fin 0) (Fin 0))
   = [\<lparr>AssociationRuleResult.source = [0x61], target = [0x62], support = Fin 1,
       confidence = PInf, lift = PInf, cooccur = 1\<rparr>]"
  unfolding calculateAssociationRules_def Let_def bar_transactions
  by (simp add: pairKeys_def typeOf_def barEntities_def ent_def bumpKey_def addRule_def Let_def
      splitBar_def bar_def supportOf_def jsge_def sortRules_def)

end
